theory Spec2Isabelle
  imports Complex_Main "HOL-Library.Sublist"
begin

section \<open>Geometry utilities\<close>

text \<open>
  JavaScript numbers are modelled as exact reals: the development is about the
  algorithms' logic, not about IEEE rounding. Coordinates live on a 0-1000 scale.
\<close>

record BBox =
  x1 :: real
  y1 :: real
  x2 :: real
  y2 :: real

text \<open>
  JavaScript's division never raises: a zero divisor gives Infinity or NaN. So that
  reaching a division with a zero divisor is visible in the model, the one quotient
  of \<open>overlapRatio\<close> is a checked division whose \<open>Inl DivisionByZero\<close> stands for
  those non-finite results. The divisions of the table detector are written with the
  plain quotient: their divisors are lengths of non-empty lists, a set size plus one,
  or a mean that a test has found positive.
\<close>

datatype num_error = DivisionByZero

definition js_div :: "real \<Rightarrow> real \<Rightarrow> num_error + real" where
  "js_div p q = (if q = 0 then Inl DivisionByZero else Inr (p / q))"

definition overlapRatio :: "BBox \<Rightarrow> BBox \<Rightarrow> num_error + real" where
  "overlapRatio a b =
     (let intersectX1 = max (x1 a) (x1 b);
          intersectY1 = max (y1 a) (y1 b);
          intersectX2 = min (x2 a) (x2 b);
          intersectY2 = min (y2 a) (y2 b)
      in if intersectX1 \<ge> intersectX2 \<or> intersectY1 \<ge> intersectY2 then Inr 0
         else
           let intersectArea = (intersectX2 - intersectX1) * (intersectY2 - intersectY1);
               aArea = (x2 a - x1 a) * (y2 a - y1 a)
           in if aArea > 0 then js_div intersectArea aArea else Inr 0)"

definition bboxContains :: "BBox \<Rightarrow> BBox \<Rightarrow> real \<Rightarrow> bool" where
  "bboxContains outer inner threshold =
     (case overlapRatio inner outer of Inr r \<Rightarrow> r \<ge> threshold | Inl _ \<Rightarrow> False)"


section \<open>Spatial table detection engine\<close>

text \<open>
  Record fields keep the source's names; where two interfaces share a field name the
  later one is prefixed (\<open>row_yCenter\<close>, \<open>col_xCenter\<close>, \<open>cell_bbox\<close>, \<open>table_bbox\<close>).
  The source's \<open>id\<close> fields are \<open>block_id\<close> and \<open>table_id\<close> (\<open>id\<close> is HOL's identity
  function), its \<open>text\<close> fields are \<open>block_text\<close> and \<open>cell_text\<close>, and the field \<open>x\<close> of
  the pooled x-centres is \<open>item_x\<close>.
\<close>

record ClusterBlock =
  block_id :: string
  bbox :: BBox
  xCenter :: real
  yCenter :: real
  block_text :: "string option"

record RowCluster =
  row_yCenter :: real
  blocks :: "ClusterBlock list"

record GridCell =
  blockId :: "string option"
  cell_bbox :: BBox
  cell_text :: "string option"
  row :: nat
  col :: nat

record CoordTableDetectorConfig =
  rowTolerance :: real
  columnTolerance :: real
  minColumns :: real
  minRows :: real
  confidenceThreshold :: real
  showOverlays :: bool
  overlayBorderStyle :: string
  debug :: bool

text \<open>
  The table id \<open>coord-table-p${pageNumber}-${Date.now()}\<close> is kept as its two numbers,
  the page number and the clock reading.
\<close>

record DetectedTable =
  table_id :: "nat \<times> nat"
  table_bbox :: BBox
  pageNumber :: nat
  rowCount :: nat
  columnCount :: nat
  confidence :: real
  blockIds :: "string list"
  grid :: "GridCell list list"

definition getBBoxCenter :: "BBox \<Rightarrow> real \<times> real" where
  "getBBoxCenter b = ((x1 b + x2 b) / 2, (y1 b + y2 b) / 2)"

text \<open>
  The body of the handler's loop that turns an OCR node (id, bbox, text) into a
  \<open>ClusterBlock\<close>, with the centres taken from \<open>getBBoxCenter\<close>.
\<close>

definition toClusterBlock :: "string \<Rightarrow> BBox \<Rightarrow> string option \<Rightarrow> ClusterBlock" where
  "toClusterBlock i b t =
     (case getBBoxCenter b of
        (x, y) \<Rightarrow> \<lparr>block_id = i, bbox = b, xCenter = x, yCenter = y, block_text = t\<rparr>)"

text \<open>\<open>blocks.reduce((sum, b) => sum + b.yCenter, 0) / blocks.length\<close>\<close>

definition meanY :: "ClusterBlock list \<Rightarrow> real" where
  "meanY bs = foldl (\<lambda>sum b. sum + yCenter b) 0 bs / real (length bs)"

text \<open>
  The \<open>for\<close> loop of \<open>clusterIntoRows\<close> over \<open>sorted[1..]\<close>, with the loop variables
  \<open>currentRow\<close> and \<open>rows\<close> as arguments; the empty list is the code after the loop.
\<close>

fun rowLoop :: "real \<Rightarrow> ClusterBlock list \<Rightarrow> RowCluster \<Rightarrow> RowCluster list \<Rightarrow> RowCluster list" where
  "rowLoop tolerance [] currentRow rows =
     rows @ [currentRow\<lparr>row_yCenter := meanY (blocks currentRow)\<rparr>]"
| "rowLoop tolerance (block # rest) currentRow rows =
     (let rowYCenter = meanY (blocks currentRow)
      in if \<bar>yCenter block - rowYCenter\<bar> \<le> tolerance
         then rowLoop tolerance rest
                (currentRow\<lparr>blocks := blocks currentRow @ [block]\<rparr>) rows
         else rowLoop tolerance rest
                \<lparr>row_yCenter = yCenter block, blocks = [block]\<rparr>
                (rows @ [currentRow\<lparr>row_yCenter := rowYCenter\<rparr>]))"

text \<open>
  \<open>Array.prototype.sort\<close> is stable, and so is \<open>sort_key\<close> (insertion sort).
\<close>

definition clusterIntoRows :: "ClusterBlock list \<Rightarrow> real \<Rightarrow> RowCluster list" where
  "clusterIntoRows bs tolerance =
     (case sort_key yCenter bs of
        [] \<Rightarrow> []
      | first # rest \<Rightarrow>
          rowLoop tolerance rest \<lparr>row_yCenter = yCenter first, blocks = [first]\<rparr> [])"

record XItem =
  item_x :: real
  rowIdx :: nat

text \<open>
  A column cluster; \<open>rowSet\<close> is a JavaScript \<open>Set\<close> of row indices, kept as a
  duplicate-free list in insertion order, so that \<open>rowSet.size\<close> is its length.
\<close>

record ColumnCluster =
  col_xCenter :: real
  rowSet :: "nat list"

definition setAdd :: "'a \<Rightarrow> 'a list \<Rightarrow> 'a list" where
  "setAdd v vs = (if v \<in> set vs then vs else vs @ [v])"

text \<open>
  The inner \<open>for (const cluster of columnClusters)\<close> with its \<open>break\<close>, followed by
  the \<open>if (!found)\<close> push: the first cluster within tolerance absorbs the item,
  after the row index has been added to its \<open>rowSet\<close>; otherwise a new cluster is
  appended.
\<close>

fun mergeItem :: "real \<Rightarrow> XItem \<Rightarrow> ColumnCluster list \<Rightarrow> ColumnCluster list" where
  "mergeItem tolerance item [] = [\<lparr>col_xCenter = item_x item, rowSet = [rowIdx item]\<rparr>]"
| "mergeItem tolerance item (cluster # rest) =
     (if \<bar>item_x item - col_xCenter cluster\<bar> \<le> tolerance
      then (let rs = setAdd (rowIdx item) (rowSet cluster)
            in \<lparr>col_xCenter =
                   (col_xCenter cluster * real (length rs) + item_x item) / (real (length rs) + 1),
                 rowSet = rs\<rparr>) # rest
      else cluster # mergeItem tolerance item rest)"

definition collectXCenters :: "RowCluster list \<Rightarrow> XItem list" where
  "collectXCenters rows =
     concat (map (\<lambda>(i, r). map (\<lambda>b. \<lparr>item_x = xCenter b, rowIdx = i\<rparr>) (blocks r))
                 (enumerate 0 rows))"

definition clusterColumns :: "real \<Rightarrow> XItem list \<Rightarrow> ColumnCluster list" where
  "clusterColumns tolerance sortedItems =
     foldl (\<lambda>columnClusters item. mergeItem tolerance item columnClusters) [] sortedItems"

definition detectColumns :: "RowCluster list \<Rightarrow> real \<Rightarrow> real \<Rightarrow> real list" where
  "detectColumns rows tolerance minRows' =
     (if real (length rows) < minRows' then []
      else
        let allXCenters = collectXCenters rows
        in if allXCenters = [] then []
           else
             let columnClusters = clusterColumns tolerance (sort_key item_x allXCenters)
             in sort (map col_xCenter
                       (filter (\<lambda>c. real (length (rowSet c)) \<ge> minRows') columnClusters)))"

text \<open>
  \<open>Math.min(...ys)\<close> and \<open>Math.max(...ys)\<close>. For no arguments JavaScript returns
  \<open>Infinity\<close> and \<open>-Infinity\<close>, which the reals lack, and \<open>Min {}\<close> is unspecified;
  nothing below is proved about that case, and the rows built by \<open>clusterIntoRows\<close>
  are never empty (lemma \<open>clusterIntoRows_rows_nonempty\<close>).
\<close>

definition mathMin :: "real list \<Rightarrow> real" where
  "mathMin ys = Min (set ys)"

definition mathMax :: "real list \<Rightarrow> real" where
  "mathMax ys = Max (set ys)"

definition emptyCell :: "RowCluster \<Rightarrow> real list \<Rightarrow> nat \<Rightarrow> nat \<Rightarrow> GridCell" where
  "emptyCell r columns rowIdx' colIdx =
     (let colX = columns ! colIdx;
          colWidth = (if length columns > 1
                      then (if colIdx < length columns - 1
                            then columns ! (colIdx + 1) - colX
                            else colX - columns ! (colIdx - 1))
                      else 100);
          minY = mathMin (map (\<lambda>b. y1 (bbox b)) (blocks r));
          maxY = mathMax (map (\<lambda>b. y2 (bbox b)) (blocks r))
      in \<lparr>blockId = None,
          cell_bbox = \<lparr>x1 = colX - colWidth / 2, y1 = minY,
                       x2 = colX + colWidth / 2, y2 = maxY\<rparr>,
          cell_text = None, row = rowIdx', col = colIdx\<rparr>)"

definition gridCell :: "RowCluster \<Rightarrow> real list \<Rightarrow> real \<Rightarrow> nat \<Rightarrow> nat \<Rightarrow> GridCell" where
  "gridCell r columns tolerance rowIdx' colIdx =
     (case find (\<lambda>b. \<bar>xCenter b - columns ! colIdx\<bar> \<le> tolerance) (blocks r) of
        Some matchingBlock \<Rightarrow>
          \<lparr>blockId = Some (block_id matchingBlock), cell_bbox = bbox matchingBlock,
           cell_text = block_text matchingBlock, row = rowIdx', col = colIdx\<rparr>
      | None \<Rightarrow> emptyCell r columns rowIdx' colIdx)"

definition buildGrid :: "RowCluster list \<Rightarrow> real list \<Rightarrow> real \<Rightarrow> GridCell list list" where
  "buildGrid rows columns tolerance =
     map (\<lambda>(rowIdx', r). map (gridCell r columns tolerance rowIdx') [0..<length columns])
         (enumerate 0 rows)"

text \<open>\<open>xs.reduce((a, b) => a + b, 0)\<close> and the mean and variance built from it.\<close>

definition sumOf :: "real list \<Rightarrow> real" where
  "sumOf xs = foldl (\<lambda>a b. a + b) 0 xs"

definition filledCells :: "GridCell list \<Rightarrow> GridCell list" where
  "filledCells cells = filter (\<lambda>c. blockId c \<noteq> None) cells"

definition consistency :: "real \<Rightarrow> real \<Rightarrow> real" where
  "consistency avg variance = (if avg > 0 then 1 / (1 + variance / avg) else 0)"

text \<open>
  The three ingredients of \<open>calculateConfidence\<close>: the count of non-empty cells, the
  mean height of the non-empty cells of each row, and the mean width of the non-empty
  cells of each column that has one. \<open>row[col]\<close> is \<open>r ! col'\<close>: every row of a grid
  built by \<open>buildGrid\<close> has \<open>columns.length\<close> cells, so the index is in range for
  \<open>col' < colCount\<close>.
\<close>

definition countFilled :: "GridCell list list \<Rightarrow> nat" where
  "countFilled g =
     foldl (\<lambda>n r. foldl (\<lambda>n c. if blockId c \<noteq> None then n + 1 else n) n r) 0 g"

definition rowHeightsOf :: "GridCell list list \<Rightarrow> real list" where
  "rowHeightsOf g =
     map (\<lambda>r. let heights = map (\<lambda>c. y2 (cell_bbox c) - y1 (cell_bbox c)) (filledCells r)
              in if length heights > 0 then sumOf heights / real (length heights) else 0) g"

definition colWidthsOf :: "GridCell list list \<Rightarrow> nat \<Rightarrow> real list" where
  "colWidthsOf g colCount =
     concat (map (\<lambda>col'.
         let widths = map (\<lambda>c. x2 (cell_bbox c) - x1 (cell_bbox c))
                          (filledCells (map (\<lambda>r. r ! col') g))
         in if length widths > 0 then [sumOf widths / real (length widths)] else [])
       [0..<colCount])"

text \<open>\<open>xs.reduce((sum, v) => sum + Math.pow(v - avg, 2), 0) / xs.length\<close>\<close>

definition varianceOf :: "real list \<Rightarrow> real \<Rightarrow> real" where
  "varianceOf xs avg = foldl (\<lambda>sum v. sum + (v - avg)\<^sup>2) 0 xs / real (length xs)"

definition calculateConfidence :: "GridCell list list \<Rightarrow> real" where
  "calculateConfidence g =
     (if length g = 0 \<or> length (g ! 0) = 0 then 0
      else
        let rowCount' = length g;
            colCount = length (g ! 0);
            fillRatio = real (countFilled g) / real (rowCount' * colCount);
            rowHeights = rowHeightsOf g;
            avgRowHeight = sumOf rowHeights / real (length rowHeights);
            rowHeightVariance = varianceOf rowHeights avgRowHeight;
            rowHeightConsistency = consistency avgRowHeight rowHeightVariance;
            colWidths = colWidthsOf g colCount;
            avgColWidth = (if length colWidths > 0
                           then sumOf colWidths / real (length colWidths) else 0);
            colWidthVariance = (if length colWidths > 0
                                then varianceOf colWidths avgColWidth else 0);
            colWidthConsistency = consistency avgColWidth colWidthVariance;
            confidence' = fillRatio * 0.4 + rowHeightConsistency * 0.3 + colWidthConsistency * 0.3
        in min 1 (max 0 confidence'))"

definition computeTableBBox :: "ClusterBlock list \<Rightarrow> BBox" where
  "computeTableBBox bs =
     (if length bs = 0 then \<lparr>x1 = 0, y1 = 0, x2 = 0, y2 = 0\<rparr>
      else \<lparr>x1 = mathMin (map (\<lambda>b. x1 (bbox b)) bs),
            y1 = mathMin (map (\<lambda>b. y1 (bbox b)) bs),
            x2 = mathMax (map (\<lambda>b. x2 (bbox b)) bs),
            y2 = mathMax (map (\<lambda>b. y2 (bbox b)) bs)\<rparr>)"

text \<open>
  \<open>detectTablesOnPage\<close>; \<open>now\<close> is the value of \<open>Date.now()\<close>. The debug log lines
  have no effect on the result and are left out.
\<close>

definition detectTablesOnPage ::
  "ClusterBlock list \<Rightarrow> nat \<Rightarrow> CoordTableDetectorConfig \<Rightarrow> nat \<Rightarrow> DetectedTable list" where
  "detectTablesOnPage bs pageNumber' config now =
     (if real (length bs) < minRows config * minColumns config then []
      else
        let rows = clusterIntoRows bs (rowTolerance config)
        in if real (length rows) < minRows config then []
           else
             let columns = detectColumns rows (columnTolerance config) (minRows config)
             in if real (length columns) < minColumns config then []
                else
                  let g = buildGrid rows columns (columnTolerance config);
                      confidence' = calculateConfidence g
                  in if confidence' < confidenceThreshold config then []
                     else
                       let allBlocks = concat (map blocks rows)
                       in [\<lparr>table_id = (pageNumber', now),
                            table_bbox = computeTableBBox allBlocks,
                            pageNumber = pageNumber',
                            rowCount = length rows,
                            columnCount = length columns,
                            confidence = confidence',
                            blockIds = map block_id allBlocks,
                            grid = g\<rparr>])"


subsection \<open>Inputs of the detection scenarios\<close>

text \<open>
  An OCR block of width \<open>w\<close> and height \<open>h\<close> centred at \<open>(cx, cy)\<close>, as the handler
  builds it from its bounding box, and the grid cell that \<open>buildGrid\<close> binds to it.
\<close>

definition centredBlock :: "string \<Rightarrow> real \<Rightarrow> real \<Rightarrow> real \<Rightarrow> real \<Rightarrow> ClusterBlock" where
  "centredBlock i cx cy w h =
     toClusterBlock i \<lparr>x1 = cx - w / 2, y1 = cy - h / 2, x2 = cx + w / 2, y2 = cy + h / 2\<rparr> None"

definition filledCell :: "string \<Rightarrow> real \<Rightarrow> real \<Rightarrow> real \<Rightarrow> real \<Rightarrow> nat \<Rightarrow> nat \<Rightarrow> GridCell" where
  "filledCell i cx cy w h r c =
     \<lparr>blockId = Some i,
      cell_bbox = \<lparr>x1 = cx - w / 2, y1 = cy - h / 2, x2 = cx + w / 2, y2 = cy + h / 2\<rparr>,
      cell_text = None, row = r, col = c\<rparr>"

text \<open>An empty (synthesised) grid cell with the given corners.\<close>

definition hole :: "real \<Rightarrow> real \<Rightarrow> real \<Rightarrow> real \<Rightarrow> nat \<Rightarrow> nat \<Rightarrow> GridCell" where
  "hole xa xb ya yb r c =
     \<lparr>blockId = None, cell_bbox = \<lparr>x1 = xa, y1 = ya, x2 = xb, y2 = yb\<rparr>,
      cell_text = None, row = r, col = c\<rparr>"

text \<open>
  Six blocks of one size with vertical centres 10, 10, 50, 50, 90, 90 and horizontal
  centres 20, 80, 20, 80, 20, 80, in this order.
\<close>

definition gridBlocks :: "string list \<Rightarrow> real \<Rightarrow> real \<Rightarrow> ClusterBlock list" where
  "gridBlocks ids w h =
     map (\<lambda>(i, cx, cy). centredBlock i cx cy w h)
       (zip ids [(20, 10), (80, 10), (20, 50), (80, 50), (20, 90), (80, 90)])"

text \<open>
  Four blocks of size 10 by 6 in two columns, no two of them in the same row: centres
  \<open>(20, 10)\<close>, \<open>(20, 50)\<close>, \<open>(80, 90)\<close> and \<open>(80, 130)\<close>.
\<close>

definition staggeredBlocks :: "ClusterBlock list" where
  "staggeredBlocks =
     [centredBlock ''a'' 20 10 10 6, centredBlock ''b'' 20 50 10 6,
      centredBlock ''c'' 80 90 10 6, centredBlock ''d'' 80 130 10 6]"

text \<open>The configuration with the schema's defaults.\<close>

definition defaultConfig :: CoordTableDetectorConfig where
  "defaultConfig =
     \<lparr>rowTolerance = 15, columnTolerance = 20, minColumns = 2, minRows = 2,
      confidenceThreshold = 0.7, showOverlays = True,
      overlayBorderStyle = ''2px solid #3b82f6'', debug = False\<rparr>"

text \<open>
  No two blocks of the list have vertical centres within \<open>tolerance\<close> of each other.
\<close>

fun scattered :: "real \<Rightarrow> ClusterBlock list \<Rightarrow> bool" where
  "scattered tolerance [] = True"
| "scattered tolerance (b # bs) =
     (list_all (\<lambda>c. \<bar>yCenter b - yCenter c\<bar> > tolerance) bs \<and> scattered tolerance bs)"

section \<open>Plugin registry, event bus and lifecycle orchestrator\<close>

subsection \<open>Data\<close>

datatype VdomLifecycleEvent =
  Loading | Ready | Interactive | Complete | NodeAdded | NodeRemoved | NodeUpdated
  | SelectionChanged | PageChanged

datatype PluginManagerEvent =
  PluginRegistered | PluginUnregistered | PluginEnabled | PluginDisabled
  | PluginConfigChanged | PluginStarted | PluginCompleted | PluginError | LifecycleEmit
  | CommandStarted | CommandCompleted | CommandError

datatype PluginEmitType = Overlays | Badges | Annotations | Stats | EmitError | Transformation

text \<open>
  A thrown value is an \<open>Error\<close> instance with its message, or any other value with its
  \<open>String(...)\<close> rendering; \<open>errorMessage\<close> is
  \<open>error instanceof Error ? error.message : String(error)\<close>.
\<close>

datatype thrown = ErrorObj string | NonError string

fun errorMessage :: "thrown \<Rightarrow> string" where
  "errorMessage (ErrorObj m) = m"
| "errorMessage (NonError r) = r"

text \<open>Configuration values (\<open>Record<string, unknown>\<close>) and opaque payloads.\<close>

datatype cfg_value = Undefined | Num real | Str string | Bool bool

type_synonym config = "string \<rightharpoonup> cfg_value"

type_synonym payload = string

record PluginResult =
  success :: bool
  data :: "payload option"
  error :: "string option"

record CommandResult =
  cmd_success :: bool
  cmd_content :: "string option"
  cmd_error :: "string option"

text \<open>
  The caller's part of a plugin context (document accessor and query engine) is opaque
  to the runtime and reduced to the document id.
\<close>

datatype snapshot = Snapshot string

record PluginContext =
  host :: snapshot
  event :: VdomLifecycleEvent
  config :: config

text \<open>
  The caller's part of a command context (\<open>Omit<CommandContext, 'config' | 'log'>\<close>),
  and the full context with the plugin's configuration added.
\<close>

record CommandTarget =
  entity_id :: string
  entity_type :: string
  entity_bbox :: BBox
  entity_page :: nat
  documentId :: string

record CommandContext = CommandTarget +
  cmd_config :: config

text \<open>
  A command handler settles with a result or rejects with a thrown value. Only the
  fields that command execution reads are kept.
\<close>

record PluginCommand =
  cmd_id :: string
  title :: string
  contexts :: "string list"
  cmd_handler :: "CommandContext \<Rightarrow> thrown + CommandResult"

text \<open>
  What a call of \<open>cleanup()\<close> does: it returns with its work done (\<open>CleanupDone\<close>), it
  returns a promise that is still pending, its work continuing after the call
  (\<open>CleanupPending\<close>), or it throws.
\<close>

datatype cleanup_run = CleanupDone | CleanupPending | CleanupThrows thrown

text \<open>
  A plugin manifest. Its handler is a closure with access to the manager, and it is
  awaited, so other code can run during its turn. A handler is therefore modelled by
  what one run of it yields: how it settles (a result, or a thrown value for a throw or
  a rejection) and the manager calls made while its turn is in progress, by the
  handler itself (including \<open>ctx.emit\<close>), by a bus listener reacting to the turn's
  events, or by another caller while the handler is awaited. \<open>configSchema\<close> keeps each
  field's default only, the one attribute the runtime reads.
\<close>

datatype action =
  Register VdomPlugin | Unregister string | Enable string | Disable string
  | SetConfig string config | CtxEmit PluginEmitType payload
and VdomPlugin =
  VdomPlugin
    (name: string)
    (description: string)
    (runsOn: "VdomLifecycleEvent list")
    (handler: "PluginContext \<Rightarrow> (thrown + PluginResult) \<times> action list")
    (commands: "PluginCommand list option")
    (configSchema: "(string \<times> cfg_value) list option")
    (defaultEnabled: "bool option")
    (cleanup: "cleanup_run option")
    (dependencies: "string list option")

text \<open>The payloads of the bus topics; the wall-clock \<open>duration\<close> field is left out.\<close>

datatype bus_data =
  NameData string
  | ConfigChangedData string config
  | StartedData string VdomLifecycleEvent
  | CompletedData string PluginResult
  | ErrorData string thrown
  | EmitData string PluginEmitType payload
  | CommandStartedData string string string
  | CommandCompletedData string string CommandResult
  | CommandErrorData string string thrown

text \<open>
  A bus listener, with \<open>lid\<close> standing for the identity of the function object; \<open>react\<close>
  says whether a call of it with the given payload returns (\<open>None\<close>) or throws.
\<close>

record listener =
  lid :: nat
  react :: "bus_data \<Rightarrow> thrown option"

text \<open>
  The observable effects, in the order in which they happen. \<open>Emitted\<close> records a call
  of \<open>emit\<close>, \<open>ListenerCalled\<close> a call of a listener, \<open>ConsoleError\<close> the logging of a
  listener's exception, \<open>HandlerCalled\<close> and \<open>CommandHandlerCalled\<close> the invocation of a
  handler, \<open>CleanupCalled n ns\<close> a call of plugin \<open>n\<close>'s cleanup at a moment when
  \<open>getPlugins()\<close> lists the names \<open>ns\<close>, and \<open>CleanupSettled\<close> that the work of that
  cleanup is complete.
\<close>

datatype effect =
  Emitted PluginManagerEvent bus_data
  | ListenerCalled nat PluginManagerEvent bus_data
  | ConsoleError PluginManagerEvent thrown
  | HandlerCalled string PluginContext
  | CommandHandlerCalled string string
  | CleanupCalled string "string list"
  | CleanupSettled string

text \<open>
  The manager's state. \<open>plugins\<close> is a JavaScript \<open>Map\<close>, kept as an association list
  in insertion order with distinct keys; \<open>enabledPlugins\<close> is a \<open>Set\<close>, kept as a
  duplicate-free list; the order of \<open>pluginConfigs\<close> is never observed, so it is a map.
  \<open>listeners\<close> gives each topic its \<open>Set\<close> of handlers in insertion order (an absent
  entry and an empty set behave alike). \<open>trace\<close> collects the effects.
\<close>

record manager =
  plugins :: "(string \<times> VdomPlugin) list"
  enabledPlugins :: "string list"
  pluginConfigs :: "string \<rightharpoonup> config"
  listeners :: "PluginManagerEvent \<Rightarrow> listener list"
  trace :: "effect list"

definition newManager :: manager where
  "newManager = \<lparr>plugins = [], enabledPlugins = [], pluginConfigs = Map.empty,
                  listeners = (\<lambda>_. []), trace = []\<rparr>"

definition record_effect :: "effect list \<Rightarrow> manager \<Rightarrow> manager" where
  "record_effect es s = s\<lparr>trace := trace s @ es\<rparr>"

subsection \<open>Event bus\<close>

text \<open>
  A method that returns nothing yields \<open>(None, s')\<close> when it returns and
  \<open>(Some e, s')\<close> when it throws \<open>e\<close>; \<open>s'\<close> is the state it leaves behind.
\<close>

definition on :: "manager \<Rightarrow> PluginManagerEvent \<Rightarrow> listener \<Rightarrow> manager" where
  "on s ev h = s\<lparr>listeners := (listeners s)(ev := setAdd h (listeners s ev))\<rparr>"

text \<open>The closure returned by \<open>on\<close>.\<close>

definition unsubscribe :: "manager \<Rightarrow> PluginManagerEvent \<Rightarrow> listener \<Rightarrow> manager" where
  "unsubscribe s ev h = s\<lparr>listeners := (listeners s)(ev := removeAll h (listeners s ev))\<rparr>"

text \<open>
  The loop of \<open>emit\<close> over the handlers: each call sits in a \<open>try\<close>, and the \<open>catch\<close>
  logs the exception and goes on with the next handler.
\<close>

fun emitLoop ::
  "PluginManagerEvent \<Rightarrow> bus_data \<Rightarrow> listener list \<Rightarrow> manager \<Rightarrow> thrown option \<times> manager" where
  "emitLoop ev d [] s = (None, s)"
| "emitLoop ev d (h # hs) s =
     (case react h d of
        None \<Rightarrow> emitLoop ev d hs (record_effect [ListenerCalled (lid h) ev d] s)
      | Some e \<Rightarrow>
          emitLoop ev d hs (record_effect [ListenerCalled (lid h) ev d, ConsoleError ev e] s))"

definition emit :: "manager \<Rightarrow> PluginManagerEvent \<Rightarrow> bus_data \<Rightarrow> thrown option \<times> manager" where
  "emit s ev d = emitLoop ev d (listeners s ev) (record_effect [Emitted ev d] s)"


subsection \<open>Registry\<close>

definition getPlugins :: "manager \<Rightarrow> VdomPlugin list" where
  "getPlugins s = map snd (plugins s)"

definition getPlugin :: "manager \<Rightarrow> string \<Rightarrow> VdomPlugin option" where
  "getPlugin s n = map_of (plugins s) n"

definition isEnabled :: "manager \<Rightarrow> string \<Rightarrow> bool" where
  "isEnabled s n = (n \<in> set (enabledPlugins s))"

definition getConfig :: "manager \<Rightarrow> string \<Rightarrow> config" where
  "getConfig s n = (case pluginConfigs s n of Some c \<Rightarrow> c | None \<Rightarrow> Map.empty)"

definition quoted :: "string \<Rightarrow> string \<Rightarrow> string" where
  "quoted n rest = ''Plugin '' @ [CHR 0x22] @ n @ [CHR 0x22] @ rest"

definition defaultConfigOf :: "(string \<times> cfg_value) list \<Rightarrow> config" where
  "defaultConfigOf schema = foldl (\<lambda>defaultConfig (key, dflt). defaultConfig(key \<mapsto> dflt)) Map.empty schema"

definition register :: "manager \<Rightarrow> VdomPlugin \<Rightarrow> thrown option \<times> manager" where
  "register s plugin =
     (if getPlugin s (name plugin) \<noteq> None
      then (Some (ErrorObj (quoted (name plugin) '' is already registered'')), s)
      else
        let s1 = s\<lparr>plugins := plugins s @ [(name plugin, plugin)]\<rparr>;
            s2 = (case configSchema plugin of
                    Some schema \<Rightarrow>
                      s1\<lparr>pluginConfigs := (pluginConfigs s1)(name plugin \<mapsto> defaultConfigOf schema)\<rparr>
                  | None \<Rightarrow> s1);
            s3 = (if defaultEnabled plugin = Some True
                  then s2\<lparr>enabledPlugins := setAdd (name plugin) (enabledPlugins s2)\<rparr>
                  else s2)
        in emit s3 PluginRegistered (NameData (name plugin)))"

text \<open>
  Lines 54-57 of \<open>unregister\<close>: the cleanup is called and the value it returns is
  dropped. Nothing awaits a returned promise, so a pending cleanup is still pending
  when the call returns.
\<close>

definition callCleanup :: "manager \<Rightarrow> string \<Rightarrow> thrown option \<times> manager" where
  "callCleanup s n =
     (case getPlugin s n of
        None \<Rightarrow> (None, s)
      | Some plugin \<Rightarrow>
          (case cleanup plugin of
             None \<Rightarrow> (None, s)
           | Some c \<Rightarrow>
               let s1 = record_effect [CleanupCalled n (map name (getPlugins s))] s
               in (case c of
                     CleanupDone \<Rightarrow> (None, record_effect [CleanupSettled n] s1)
                   | CleanupPending \<Rightarrow> (None, s1)
                   | CleanupThrows e \<Rightarrow> (Some e, s1))))"

definition deletePlugin :: "manager \<Rightarrow> string \<Rightarrow> manager" where
  "deletePlugin s n =
     s\<lparr>plugins := filter (\<lambda>(k, _). k \<noteq> n) (plugins s),
       enabledPlugins := removeAll n (enabledPlugins s),
       pluginConfigs := (pluginConfigs s)(n := None)\<rparr>"

definition unregister :: "manager \<Rightarrow> string \<Rightarrow> thrown option \<times> manager" where
  "unregister s n =
     (case callCleanup s n of
        (Some e, s1) \<Rightarrow> (Some e, s1)
      | (None, s1) \<Rightarrow> emit (deletePlugin s1 n) PluginUnregistered (NameData n))"

definition enable :: "manager \<Rightarrow> string \<Rightarrow> thrown option \<times> manager" where
  "enable s n =
     (if getPlugin s n = None
      then (Some (ErrorObj (quoted n '' is not registered'')), s)
      else emit (s\<lparr>enabledPlugins := setAdd n (enabledPlugins s)\<rparr>) PluginEnabled (NameData n))"

definition disable :: "manager \<Rightarrow> string \<Rightarrow> thrown option \<times> manager" where
  "disable s n =
     emit (s\<lparr>enabledPlugins := removeAll n (enabledPlugins s)\<rparr>) PluginDisabled (NameData n)"

definition setConfig :: "manager \<Rightarrow> string \<Rightarrow> config \<Rightarrow> thrown option \<times> manager" where
  "setConfig s n c =
     (if getPlugin s n = None
      then (Some (ErrorObj (quoted n '' is not registered'')), s)
      else
        let existing = getConfig s n;
            s1 = s\<lparr>pluginConfigs := (pluginConfigs s)(n \<mapsto> existing ++ c)\<rparr>
        in emit s1 PluginConfigChanged (ConfigChangedData n (the (pluginConfigs s1 n))))"

subsection \<open>Dependency resolution\<close>

text \<open>
  \<open>resolve\<close> is recursive, and JavaScript's call stack is finite: the first argument is
  the number of frames still available, and \<open>None\<close> is the \<open>RangeError\<close> raised when
  they run out. The closure variables \<open>plugins\<close> (the run list) and \<open>resolved\<close> are
  threaded through as a pair. As in the source, a name is added to \<open>resolved\<close> after
  its dependencies have been visited.
\<close>

type_synonym resolution = "VdomPlugin list \<times> string list"

fun forEachName ::
  "(string \<Rightarrow> resolution \<Rightarrow> resolution option) \<Rightarrow> string list \<Rightarrow> resolution \<Rightarrow> resolution option" where
  "forEachName f [] st = Some st"
| "forEachName f (n # ns) st =
     (case f n st of None \<Rightarrow> None | Some st' \<Rightarrow> forEachName f ns st')"

text \<open>\<open>if (plugin.dependencies) for (const dep of plugin.dependencies) ...\<close>\<close>

definition dependencyList :: "VdomPlugin \<Rightarrow> string list" where
  "dependencyList plugin = (case dependencies plugin of Some deps \<Rightarrow> deps | None \<Rightarrow> [])"

fun resolve ::
  "manager \<Rightarrow> VdomLifecycleEvent \<Rightarrow> nat \<Rightarrow> string \<Rightarrow> resolution \<Rightarrow> resolution option" where
  "resolve s ev 0 n st = None"
| "resolve s ev (Suc frames) n (run, resolved) =
     (if n \<in> set resolved then Some (run, resolved)
      else
        case getPlugin s n of
          None \<Rightarrow> Some (run, resolved)
        | Some plugin \<Rightarrow>
            (case forEachName (\<lambda>dep st. resolve s ev frames dep st)
                    (dependencyList plugin) (run, resolved) of
               None \<Rightarrow> None
             | Some (run', resolved') \<Rightarrow>
                 Some (if ev \<in> set (runsOn plugin) then run' @ [plugin] else run',
                       setAdd n resolved')))"

definition getPluginsForEvent ::
  "nat \<Rightarrow> manager \<Rightarrow> VdomLifecycleEvent \<Rightarrow> VdomPlugin list option" where
  "getPluginsForEvent frames s ev =
     map_option fst (forEachName (\<lambda>n st. resolve s ev frames n st) (map fst (plugins s)) ([], []))"

definition stackOverflow :: thrown where
  "stackOverflow = ErrorObj ''Maximum call stack size exceeded''"

subsection \<open>Lifecycle dispatch\<close>

text \<open>
  The manager calls made during a plugin's turn. An exception raised by such a call
  stays inside the turn (whether the handler lets it escape is part of how the handler
  settles), so only the state each call leaves behind is kept.
\<close>

fun perform :: "string \<Rightarrow> manager \<Rightarrow> action \<Rightarrow> manager" where
  "perform pluginName s (Register p) = snd (register s p)"
| "perform pluginName s (Unregister n) = snd (unregister s n)"
| "perform pluginName s (Enable n) = snd (enable s n)"
| "perform pluginName s (Disable n) = snd (disable s n)"
| "perform pluginName s (SetConfig n c) = snd (setConfig s n c)"
| "perform pluginName s (CtxEmit t d) = snd (emit s LifecycleEmit (EmitData pluginName t d))"

text \<open>
  The \<open>for (const plugin of pluginsToRun)\<close> loop of \<open>runEvent\<close>, with \<open>results\<close> and the
  manager as loop state. The enabled set and the configuration are read from the
  manager as it is when the plugin's turn comes.
\<close>

fun dispatch ::
  "VdomLifecycleEvent \<Rightarrow> snapshot \<Rightarrow> VdomPlugin list \<Rightarrow> (string \<rightharpoonup> PluginResult) \<Rightarrow> manager
     \<Rightarrow> (thrown + (string \<rightharpoonup> PluginResult)) \<times> manager" where
  "dispatch ev cx [] results s = (Inr results, s)"
| "dispatch ev cx (plugin # rest) results s =
     (if name plugin \<notin> set (enabledPlugins s) then dispatch ev cx rest results s
      else
        case emit s PluginStarted (StartedData (name plugin) ev) of
          (Some e, s1) \<Rightarrow> (Inl e, s1)
        | (None, s1) \<Rightarrow>
            let ctx = \<lparr>host = cx, event = ev, config = getConfig s1 (name plugin)\<rparr>;
                run = handler plugin ctx;
                s2 = foldl (perform (name plugin))
                       (record_effect [HandlerCalled (name plugin) ctx] s1) (snd run)
            in (case fst run of
                  Inr result \<Rightarrow>
                    (case emit s2 PluginCompleted (CompletedData (name plugin) result) of
                       (Some e, s3) \<Rightarrow>
                         \<comment> \<open>an exception inside the \<open>try\<close> block goes to the \<open>catch\<close>\<close>
                         (let result' = \<lparr>success = False, data = None, error = Some (errorMessage e)\<rparr>
                          in case emit s3 PluginError (ErrorData (name plugin) e) of
                               (Some e', s4) \<Rightarrow> (Inl e', s4)
                             | (None, s4) \<Rightarrow>
                                 dispatch ev cx rest (results(name plugin \<mapsto> result')) s4)
                     | (None, s3) \<Rightarrow> dispatch ev cx rest (results(name plugin \<mapsto> result)) s3)
                | Inl e \<Rightarrow>
                    (let result = \<lparr>success = False, data = None, error = Some (errorMessage e)\<rparr>
                     in case emit s2 PluginError (ErrorData (name plugin) e) of
                          (Some e', s3) \<Rightarrow> (Inl e', s3)
                        | (None, s3) \<Rightarrow>
                            dispatch ev cx rest (results(name plugin \<mapsto> result)) s3)))"

definition runEvent ::
  "nat \<Rightarrow> manager \<Rightarrow> VdomLifecycleEvent \<Rightarrow> snapshot
     \<Rightarrow> (thrown + (string \<rightharpoonup> PluginResult)) \<times> manager" where
  "runEvent frames s ev cx =
     (case getPluginsForEvent frames s ev of
        None \<Rightarrow> (Inl stackOverflow, s)
      | Some pluginsToRun \<Rightarrow> dispatch ev cx pluginsToRun Map.empty s)"


subsection \<open>Command execution\<close>

text \<open>
  Modelled from the spec: \<open>executeCommand\<close> is declared in \<open>IPluginManager\<close> and
  exercised by the command tests, but the manager class in \<open>runtime.ts\<close> has no body
  for it. The definition follows section 4.3 of the specification: a not-found
  failure if the plugin is unregistered or owns no command with that id, a not-enabled
  failure if the plugin is disabled, otherwise \<open>command:started\<close>, the handler call
  with the plugin's configuration added to the context, and \<open>command:completed\<close> or
  \<open>command:error\<close> with a normalised failure result. The wording of the two failure
  messages beyond the phrases ``not found'' and ``not enabled'' follows the messages
  of \<open>enable\<close> and \<open>register\<close>.
\<close>

definition commandFailure :: "string \<Rightarrow> CommandResult" where
  "commandFailure msg = \<lparr>cmd_success = False, cmd_content = None, cmd_error = Some msg\<rparr>"

definition executeCommand ::
  "manager \<Rightarrow> string \<Rightarrow> string \<Rightarrow> CommandTarget \<Rightarrow> (thrown + CommandResult) \<times> manager" where
  "executeCommand s pluginName commandId target =
     (case getPlugin s pluginName of
        None \<Rightarrow> (Inr (commandFailure (quoted pluginName '' not found'')), s)
      | Some plugin \<Rightarrow>
          (case find (\<lambda>c. cmd_id c = commandId)
                  (case commands plugin of Some cs \<Rightarrow> cs | None \<Rightarrow> []) of
             None \<Rightarrow> (Inr (commandFailure (''Command '' @ commandId @ '' not found'')), s)
           | Some command \<Rightarrow>
               if \<not> isEnabled s pluginName
               then (Inr (commandFailure (quoted pluginName '' is not enabled'')), s)
               else
                 case emit s CommandStarted
                        (CommandStartedData pluginName commandId (entity_id target)) of
                   (Some e, s1) \<Rightarrow> (Inl e, s1)
                 | (None, s1) \<Rightarrow>
                     let ctx = CommandTarget.extend target
                                 (CommandContext.fields (getConfig s1 pluginName));
                         s2 = record_effect [CommandHandlerCalled pluginName commandId] s1
                     in (case cmd_handler command ctx of
                           Inr result \<Rightarrow>
                             (case emit s2 CommandCompleted
                                     (CommandCompletedData pluginName commandId result) of
                                (Some e, s3) \<Rightarrow> (Inl e, s3)
                              | (None, s3) \<Rightarrow> (Inr result, s3))
                         | Inl e \<Rightarrow>
                             (case emit s2 CommandError
                                     (CommandErrorData pluginName commandId e) of
                                (Some e', s3) \<Rightarrow> (Inl e', s3)
                              | (None, s3) \<Rightarrow> (Inr (commandFailure (errorMessage e)), s3)))))"

subsection \<open>Notions used to state the properties\<close>

text \<open>
  The effects of the loop of \<open>emit\<close> in closed form: every listener is called, and a
  listener that throws is followed by the logging of its exception.
\<close>

definition listenerEffects :: "PluginManagerEvent \<Rightarrow> bus_data \<Rightarrow> listener list \<Rightarrow> effect list" where
  "listenerEffects ev d hs =
     concat (map (\<lambda>h. ListenerCalled (lid h) ev d #
                        (case react h d of None \<Rightarrow> [] | Some e \<Rightarrow> [ConsoleError ev e])) hs)"

text \<open>The \<open>plugin:error\<close> events published for plugin \<open>n\<close>.\<close>

fun isErrorEventFor :: "string \<Rightarrow> effect \<Rightarrow> bool" where
  "isErrorEventFor n (Emitted PluginError (ErrorData m e)) = (m = n)"
| "isErrorEventFor n _ = False"

text \<open>The names of the plugins whose handlers were invoked, in order.\<close>

fun handlerName :: "effect \<Rightarrow> string list" where
  "handlerName (HandlerCalled n c) = [n]"
| "handlerName _ = []"

definition invoked :: "effect list \<Rightarrow> string list" where
  "invoked tr = concat (map handlerName tr)"

text \<open>
  The invariant of the registry: the keys of \<open>plugins\<close> are distinct, and every plugin
  is stored under its own name.
\<close>

definition wellFormed :: "manager \<Rightarrow> bool" where
  "wellFormed s = (distinct (map fst (plugins s)) \<and> list_all (\<lambda>(k, p). name p = k) (plugins s))"

text \<open>
  The dependency edges that leave a registered plugin whose name is not in \<open>R\<close>: the
  calls \<open>resolve\<close> makes from a name that is not yet resolved.
\<close>

definition pendingEdges :: "manager \<Rightarrow> string set \<Rightarrow> (string \<times> string) set" where
  "pendingEdges s R =
     {(a, d). a \<notin> R \<and> (\<exists>p. getPlugin s a = Some p \<and> d \<in> set (dependencyList p))}"

text \<open>The failure result synthesised in the \<open>catch\<close> block of \<open>runEvent\<close>.\<close>

definition failureResult :: "thrown \<Rightarrow> PluginResult" where
  "failureResult e = \<lparr>success = False, data = None, error = Some (errorMessage e)\<rparr>"

text \<open>
  One turn of the dispatch loop for a plugin that is enabled when its turn comes: the
  context handed to the handler, the result recorded for the plugin, and the state the
  turn leaves behind.
\<close>

definition turnContext :: "VdomLifecycleEvent \<Rightarrow> snapshot \<Rightarrow> VdomPlugin \<Rightarrow> manager \<Rightarrow> PluginContext" where
  "turnContext ev cx plugin s = \<lparr>host = cx, event = ev, config = getConfig s (name plugin)\<rparr>"

definition turnResult :: "VdomLifecycleEvent \<Rightarrow> snapshot \<Rightarrow> VdomPlugin \<Rightarrow> manager \<Rightarrow> PluginResult" where
  "turnResult ev cx plugin s =
     (case fst (handler plugin (turnContext ev cx plugin s)) of
        Inr result \<Rightarrow> result
      | Inl e \<Rightarrow> failureResult e)"

definition afterTurn :: "VdomLifecycleEvent \<Rightarrow> snapshot \<Rightarrow> VdomPlugin \<Rightarrow> manager \<Rightarrow> manager" where
  "afterTurn ev cx plugin s =
     (let s1 = snd (emit s PluginStarted (StartedData (name plugin) ev));
          ctx = turnContext ev cx plugin s;
          run = handler plugin ctx;
          s2 = foldl (perform (name plugin))
                 (record_effect [HandlerCalled (name plugin) ctx] s1) (snd run)
      in case fst run of
           Inr result \<Rightarrow> snd (emit s2 PluginCompleted (CompletedData (name plugin) result))
         | Inl e \<Rightarrow> snd (emit s2 PluginError (ErrorData (name plugin) e)))"

text \<open>The state in which the plugin after the list \<open>ps\<close> gets its turn.\<close>

definition stateAfter :: "VdomLifecycleEvent \<Rightarrow> snapshot \<Rightarrow> VdomPlugin list \<Rightarrow> manager \<Rightarrow> manager" where
  "stateAfter ev cx ps s = snd (dispatch ev cx ps Map.empty s)"

subsection \<open>Registries of the scenarios\<close>

text \<open>A handler that succeeds and calls nothing, and one that disables a plugin.\<close>

definition idleHandler :: "PluginContext \<Rightarrow> (thrown + PluginResult) \<times> action list" where
  "idleHandler ctx = (Inr \<lparr>success = True, data = None, error = None\<rparr>, [])"

definition disablingHandler :: "string \<Rightarrow> PluginContext \<Rightarrow> (thrown + PluginResult) \<times> action list" where
  "disablingHandler n ctx = (Inr \<lparr>success = True, data = None, error = None\<rparr>, [Disable n])"

definition throwingHandler :: "string \<Rightarrow> PluginContext \<Rightarrow> (thrown + PluginResult) \<times> action list" where
  "throwingHandler msg ctx = (Inl (ErrorObj msg), [])"

text \<open>
  A plugin for the \<open>ready\<close> event, enabled by default, with the given name, handler,
  cleanup and dependencies.
\<close>

definition readyPlugin ::
  "string \<Rightarrow> (PluginContext \<Rightarrow> (thrown + PluginResult) \<times> action list) \<Rightarrow> cleanup_run option
     \<Rightarrow> string list option \<Rightarrow> VdomPlugin" where
  "readyPlugin n h c deps = VdomPlugin n ''test plugin'' [Ready] h None None (Some True) c deps"

definition registerAll :: "VdomPlugin list \<Rightarrow> manager" where
  "registerAll ps = foldl (\<lambda>s p. snd (register s p)) newManager ps"

text \<open>Plugins \<open>A\<close> and \<open>B\<close> that depend on each other, and the same without the back edge.\<close>

definition cyclicManager :: manager where
  "cyclicManager =
     registerAll [readyPlugin ''A'' idleHandler None (Some [''B'']),
                  readyPlugin ''B'' idleHandler None (Some [''A''])]"

definition acyclicManager :: manager where
  "acyclicManager =
     registerAll [readyPlugin ''A'' idleHandler None (Some [''B'']),
                  readyPlugin ''B'' idleHandler None None]"

text \<open>Plugin \<open>A\<close> disables plugin \<open>B\<close> during its turn.\<close>

definition disablingManager :: manager where
  "disablingManager =
     registerAll [readyPlugin ''A'' (disablingHandler ''B'') None None,
                  readyPlugin ''B'' idleHandler None None]"

text \<open>Plugin \<open>A\<close> registers a new plugin \<open>C\<close> during its turn.\<close>

definition registeringHandler ::
  "VdomPlugin \<Rightarrow> PluginContext \<Rightarrow> (thrown + PluginResult) \<times> action list" where
  "registeringHandler p ctx = (Inr \<lparr>success = True, data = None, error = None\<rparr>, [Register p])"

definition registeringManager :: manager where
  "registeringManager =
     registerAll [readyPlugin ''A'' (registeringHandler (readyPlugin ''C'' idleHandler None None))
                    None None,
                  readyPlugin ''B'' idleHandler None None]"

text \<open>Plugin \<open>A\<close> throws \<open>Error('X')\<close>; plugin \<open>B\<close> comes after it.\<close>

definition failingManager :: manager where
  "failingManager =
     registerAll [readyPlugin ''A'' (throwingHandler ''X'') None None,
                  readyPlugin ''B'' idleHandler None None]"

text \<open>A plugin whose cleanup returns a promise that is still pending.\<close>

definition pendingCleanupManager :: manager where
  "pendingCleanupManager = registerAll [readyPlugin ''p'' idleHandler (Some CleanupPending) None]"

text \<open>A disabled plugin that owns the command \<open>test-cmd\<close>.\<close>

definition testCommand :: PluginCommand where
  "testCommand =
     \<lparr>cmd_id = ''test-cmd'', title = ''Test Command'', contexts = [''all''],
      cmd_handler = (\<lambda>ctx. Inr \<lparr>cmd_success = True, cmd_content = Some ''test'', cmd_error = None\<rparr>)\<rparr>"

definition disabledCommandManager :: manager where
  "disabledCommandManager =
     registerAll [VdomPlugin ''test-plugin'' ''Test plugin'' [] idleHandler (Some [testCommand])
                    None (Some False) None None]"

definition testTarget :: CommandTarget where
  "testTarget =
     \<lparr>entity_id = ''node-1'', entity_type = ''table'',
      entity_bbox = \<lparr>x1 = 0, y1 = 0, x2 = 100, y2 = 100\<rparr>, entity_page = 1,
      documentId = ''doc-1''\<rparr>"


section \<open>Properties of the geometry utilities\<close>

lemma overlapRatio_disjoint:
  "x2 a \<le> x1 b \<or> x2 b \<le> x1 a \<or> y2 a \<le> y1 b \<or> y2 b \<le> y1 a \<Longrightarrow> overlapRatio a b = Inr 0"
  by (auto simp: overlapRatio_def Let_def)

lemma overlapRatio_degenerate_left:
  "x1 a \<ge> x2 a \<or> y1 a \<ge> y2 a \<Longrightarrow> overlapRatio a b = Inr 0"
  by (auto simp: overlapRatio_def Let_def)

lemma overlapRatio_degenerate_right:
  "x1 b \<ge> x2 b \<or> y1 b \<ge> y2 b \<Longrightarrow> overlapRatio a b = Inr 0"
  by (auto simp: overlapRatio_def Let_def)

lemma overlapRatio_inside:
  assumes "x1 a < x2 a" "y1 a < y2 a" "x1 b \<le> x1 a" "x2 a \<le> x2 b" "y1 b \<le> y1 a" "y2 a \<le> y2 b"
  shows "overlapRatio a b = Inr 1"
proof -
  have m: "max (x1 a) (x1 b) = x1 a" "min (x2 a) (x2 b) = x2 a"
          "max (y1 a) (y1 b) = y1 a" "min (y2 a) (y2 b) = y2 a"
    using assms by auto
  have pos: "(x2 a - x1 a) * (y2 a - y1 a) > 0" using assms by simp
  show ?thesis
    using assms pos unfolding overlapRatio_def Let_def m js_div_def by auto
qed

text \<open>
  For a box \<open>a\<close> with \<open>x1 < x2\<close> and \<open>y1 < y2\<close>, the ratio times the area of \<open>a\<close> is the
  area of the intersection.
\<close>

lemma overlapRatio_times_area:
  assumes "x1 a < x2 a" "y1 a < y2 a"
  shows "\<exists>r. overlapRatio a b = Inr r \<and>
     r * ((x2 a - x1 a) * (y2 a - y1 a)) =
       (if max (x1 a) (x1 b) \<ge> min (x2 a) (x2 b) \<or> max (y1 a) (y1 b) \<ge> min (y2 a) (y2 b) then 0
        else (min (x2 a) (x2 b) - max (x1 a) (x1 b)) * (min (y2 a) (y2 b) - max (y1 a) (y1 b)))"
proof -
  have pos: "(x2 a - x1 a) * (y2 a - y1 a) > 0" using assms by simp
  show ?thesis using pos unfolding overlapRatio_def Let_def js_div_def by auto
qed

lemma overlapRatio_relative:
  assumes "x1 a < x2 a" "y1 a < y2 a" "x1 b < x2 b" "y1 b < y2 b"
  shows "\<exists>r r'. overlapRatio a b = Inr r \<and> overlapRatio b a = Inr r' \<and>
           r * ((x2 a - x1 a) * (y2 a - y1 a)) = r' * ((x2 b - x1 b) * (y2 b - y1 b))"
proof -
  obtain r where r: "overlapRatio a b = Inr r"
     "r * ((x2 a - x1 a) * (y2 a - y1 a)) =
       (if max (x1 a) (x1 b) \<ge> min (x2 a) (x2 b) \<or> max (y1 a) (y1 b) \<ge> min (y2 a) (y2 b) then 0
        else (min (x2 a) (x2 b) - max (x1 a) (x1 b)) * (min (y2 a) (y2 b) - max (y1 a) (y1 b)))"
    using overlapRatio_times_area[OF assms(1,2), of b] by blast
  obtain r' where r': "overlapRatio b a = Inr r'"
     "r' * ((x2 b - x1 b) * (y2 b - y1 b)) =
       (if max (x1 b) (x1 a) \<ge> min (x2 b) (x2 a) \<or> max (y1 b) (y1 a) \<ge> min (y2 b) (y2 a) then 0
        else (min (x2 b) (x2 a) - max (x1 b) (x1 a)) * (min (y2 b) (y2 a) - max (y1 b) (y1 a)))"
    using overlapRatio_times_area[OF assms(3,4), of a] by blast
  have "r * ((x2 a - x1 a) * (y2 a - y1 a)) = r' * ((x2 b - x1 b) * (y2 b - y1 b))"
    unfolding r(2) r'(2) by (simp add: max.commute min.commute)
  with r(1) r'(1) show ?thesis by blast
qed

lemma overlapRatio_not_symmetric:
  "overlapRatio \<lparr>x1 = 0, y1 = 0, x2 = 10, y2 = 10\<rparr> \<lparr>x1 = 0, y1 = 0, x2 = 20, y2 = 10\<rparr> = Inr 1"
  "overlapRatio \<lparr>x1 = 0, y1 = 0, x2 = 20, y2 = 10\<rparr> \<lparr>x1 = 0, y1 = 0, x2 = 10, y2 = 10\<rparr> = Inr (1 / 2)"
  by (simp_all add: overlapRatio_def js_div_def)

lemma overlapRatio_no_division_by_zero: "overlapRatio a b \<noteq> Inl DivisionByZero"
  by (auto simp: overlapRatio_def js_div_def Let_def)

text \<open>
  Claim C10. For all boxes: \<open>overlapRatio a b\<close> is 0 when \<open>a\<close> and \<open>b\<close> do not overlap
  (one lies beside, above or below the other, touching edges included); it is 1 when
  \<open>a\<close>, with \<open>x1 < x2\<close> and \<open>y1 < y2\<close>, lies inside \<open>b\<close>; it is taken relative to the area
  of its first argument (for two proper boxes, ratio times own area is the same in both
  directions, namely the area of the intersection), so it is not symmetric; a
  degenerate box (\<open>x1 \<ge> x2\<close> or \<open>y1 \<ge> y2\<close>) on either side gives 0; and no division by
  zero is ever reached.
\<close>

theorem overlapRatio_spec:
  "(x2 a \<le> x1 b \<or> x2 b \<le> x1 a \<or> y2 a \<le> y1 b \<or> y2 b \<le> y1 a \<longrightarrow> overlapRatio a b = Inr 0)
   \<and> (x1 c < x2 c \<and> y1 c < y2 c \<and> x1 d \<le> x1 c \<and> x2 c \<le> x2 d \<and> y1 d \<le> y1 c \<and> y2 c \<le> y2 d
        \<longrightarrow> overlapRatio c d = Inr 1)
   \<and> (x1 p < x2 p \<and> y1 p < y2 p \<and> x1 q < x2 q \<and> y1 q < y2 q
        \<longrightarrow> (\<exists>r r'. overlapRatio p q = Inr r \<and> overlapRatio q p = Inr r' \<and>
               r * ((x2 p - x1 p) * (y2 p - y1 p)) = r' * ((x2 q - x1 q) * (y2 q - y1 q))))
   \<and> (\<exists>u v. overlapRatio u v \<noteq> overlapRatio v u)
   \<and> (x1 e \<ge> x2 e \<or> y1 e \<ge> y2 e \<longrightarrow> overlapRatio e f = Inr 0 \<and> overlapRatio f e = Inr 0)
   \<and> overlapRatio g h \<noteq> Inl DivisionByZero"
proof -
  have asym: "\<exists>u v. overlapRatio u v \<noteq> overlapRatio v u"
  proof (intro exI)
    show "overlapRatio \<lparr>x1 = 0, y1 = 0, x2 = 10, y2 = 10\<rparr> \<lparr>x1 = 0, y1 = 0, x2 = 20, y2 = 10\<rparr>
       \<noteq> overlapRatio \<lparr>x1 = 0, y1 = 0, x2 = 20, y2 = 10\<rparr> \<lparr>x1 = 0, y1 = 0, x2 = 10, y2 = 10\<rparr>"
      by (simp add: overlapRatio_not_symmetric)
  qed
  show ?thesis
    using overlapRatio_disjoint[of a b] overlapRatio_inside[of c d] overlapRatio_relative[of p q]
      asym overlapRatio_degenerate_left[of e f] overlapRatio_degenerate_right[of e f]
      overlapRatio_no_division_by_zero[of g h]
    by blast
qed

theorem overlapRatio_spec_witness:
  "overlapRatio \<lparr>x1 = 0, y1 = 0, x2 = 10, y2 = 10\<rparr> \<lparr>x1 = 10, y1 = 0, x2 = 30, y2 = 10\<rparr> = Inr 0
   \<and> overlapRatio \<lparr>x1 = 2, y1 = 3, x2 = 5, y2 = 7\<rparr> \<lparr>x1 = 0, y1 = 0, x2 = 10, y2 = 10\<rparr> = Inr 1
   \<and> (\<exists>r r'. overlapRatio \<lparr>x1 = 0, y1 = 0, x2 = 10, y2 = 10\<rparr> \<lparr>x1 = 5, y1 = 5, x2 = 25, y2 = 25\<rparr> = Inr r
         \<and> overlapRatio \<lparr>x1 = 5, y1 = 5, x2 = 25, y2 = 25\<rparr> \<lparr>x1 = 0, y1 = 0, x2 = 10, y2 = 10\<rparr> = Inr r'
         \<and> r * 100 = r' * 400)
   \<and> overlapRatio \<lparr>x1 = 5, y1 = 0, x2 = 5, y2 = 10\<rparr> \<lparr>x1 = 0, y1 = 0, x2 = 10, y2 = 10\<rparr> = Inr 0
   \<and> overlapRatio \<lparr>x1 = 0, y1 = 0, x2 = 10, y2 = 10\<rparr> \<lparr>x1 = 5, y1 = 0, x2 = 5, y2 = 10\<rparr> = Inr 0"
  using overlapRatio_spec
    [of "\<lparr>x1 = 0, y1 = 0, x2 = 10, y2 = 10\<rparr>" "\<lparr>x1 = 10, y1 = 0, x2 = 30, y2 = 10\<rparr>"
        "\<lparr>x1 = 2, y1 = 3, x2 = 5, y2 = 7\<rparr>" "\<lparr>x1 = 0, y1 = 0, x2 = 10, y2 = 10\<rparr>"
        "\<lparr>x1 = 0, y1 = 0, x2 = 10, y2 = 10\<rparr>" "\<lparr>x1 = 5, y1 = 5, x2 = 25, y2 = 25\<rparr>"
        "\<lparr>x1 = 5, y1 = 0, x2 = 5, y2 = 10\<rparr>" "\<lparr>x1 = 0, y1 = 0, x2 = 10, y2 = 10\<rparr>"]
  by simp

section \<open>Properties of the table detection engine\<close>

subsection \<open>Rows are never empty, grids are rectangular\<close>

lemma rowLoop_rows_nonempty:
  "blocks currentRow \<noteq> [] \<Longrightarrow> \<forall>r\<in>set rows. blocks r \<noteq> [] \<Longrightarrow>
     \<forall>r\<in>set (rowLoop tolerance rest currentRow rows). blocks r \<noteq> []"
proof (induction rest arbitrary: currentRow rows)
  case Nil
  then show ?case by simp
next
  case (Cons block rest)
  show ?case
  proof (cases "\<bar>yCenter block - meanY (blocks currentRow)\<bar> \<le> tolerance")
    case True
    have "\<forall>r\<in>set (rowLoop tolerance rest (currentRow\<lparr>blocks := blocks currentRow @ [block]\<rparr>) rows).
            blocks r \<noteq> []"
      by (rule Cons.IH) (simp_all add: Cons.prems)
    with True show ?thesis by (simp add: Let_def)
  next
    case False
    have "\<forall>r\<in>set (rowLoop tolerance rest \<lparr>row_yCenter = yCenter block, blocks = [block]\<rparr>
                      (rows @ [currentRow\<lparr>row_yCenter := meanY (blocks currentRow)\<rparr>])).
            blocks r \<noteq> []"
      by (rule Cons.IH) (simp_all add: Cons.prems)
    with False show ?thesis by (simp add: Let_def)
  qed
qed

lemma clusterIntoRows_rows_nonempty:
  "\<forall>r\<in>set (clusterIntoRows bs tolerance). blocks r \<noteq> []"
proof (cases "sort_key yCenter bs")
  case Nil
  then show ?thesis by (simp add: clusterIntoRows_def)
next
  case (Cons first rest)
  have "\<forall>r\<in>set (rowLoop tolerance rest \<lparr>row_yCenter = yCenter first, blocks = [first]\<rparr> []).
          blocks r \<noteq> []"
    by (rule rowLoop_rows_nonempty) simp_all
  with Cons show ?thesis by (simp add: clusterIntoRows_def)
qed

lemma buildGrid_rectangular:
  "length (buildGrid rows columns tolerance) = length rows
   \<and> (\<forall>r\<in>set (buildGrid rows columns tolerance). length r = length columns)"
  by (auto simp: buildGrid_def)

subsection \<open>The three-by-two grid\<close>

lemma centredBlock_eq:
  "centredBlock i cx cy w h =
     \<lparr>block_id = i, bbox = \<lparr>x1 = cx - w / 2, y1 = cy - h / 2, x2 = cx + w / 2, y2 = cy + h / 2\<rparr>,
      xCenter = cx, yCenter = cy, block_text = None\<rparr>"
  by (simp add: centredBlock_def toClusterBlock_def getBBoxCenter_def)

lemma grid_rows:
  "clusterIntoRows (gridBlocks [i1, i2, i3, i4, i5, i6] w h) 15 =
     [\<lparr>row_yCenter = 10, blocks = [centredBlock i1 20 10 w h, centredBlock i2 80 10 w h]\<rparr>,
      \<lparr>row_yCenter = 50, blocks = [centredBlock i3 20 50 w h, centredBlock i4 80 50 w h]\<rparr>,
      \<lparr>row_yCenter = 90, blocks = [centredBlock i5 20 90 w h, centredBlock i6 80 90 w h]\<rparr>]"
  by (simp add: clusterIntoRows_def gridBlocks_def centredBlock_eq meanY_def)

lemma grid_columns:
  "detectColumns
     [\<lparr>row_yCenter = 10, blocks = [centredBlock i1 20 10 w h, centredBlock i2 80 10 w h]\<rparr>,
      \<lparr>row_yCenter = 50, blocks = [centredBlock i3 20 50 w h, centredBlock i4 80 50 w h]\<rparr>,
      \<lparr>row_yCenter = 90, blocks = [centredBlock i5 20 90 w h, centredBlock i6 80 90 w h]\<rparr>] 20 2
   = [20, 80]"
  by (simp add: detectColumns_def collectXCenters_def clusterColumns_def centredBlock_eq
        setAdd_def enumerate_eq_zip Let_def)

lemma grid_cells:
  "buildGrid
     [\<lparr>row_yCenter = 10, blocks = [centredBlock i1 20 10 w h, centredBlock i2 80 10 w h]\<rparr>,
      \<lparr>row_yCenter = 50, blocks = [centredBlock i3 20 50 w h, centredBlock i4 80 50 w h]\<rparr>,
      \<lparr>row_yCenter = 90, blocks = [centredBlock i5 20 90 w h, centredBlock i6 80 90 w h]\<rparr>]
     [20, 80] 20
   = [[filledCell i1 20 10 w h 0 0, filledCell i2 80 10 w h 0 1],
      [filledCell i3 20 50 w h 1 0, filledCell i4 80 50 w h 1 1],
      [filledCell i5 20 90 w h 2 0, filledCell i6 80 90 w h 2 1]]"
  by (simp add: buildGrid_def gridCell_def centredBlock_eq upt_rec filledCell_def)

lemma grid_countFilled: "countFilled [[filledCell i1 20 10 w h r1 c1, filledCell i2 80 10 w h r2 c2],
      [filledCell i3 20 50 w h r3 c3, filledCell i4 80 50 w h r4 c4],
      [filledCell i5 20 90 w h r5 c5, filledCell i6 80 90 w h r6 c6]] = 6"
  by (simp add: countFilled_def filledCell_def)

lemma grid_rowHeights: "rowHeightsOf [[filledCell i1 20 10 w h r1 c1, filledCell i2 80 10 w h r2 c2],
      [filledCell i3 20 50 w h r3 c3, filledCell i4 80 50 w h r4 c4],
      [filledCell i5 20 90 w h r5 c5, filledCell i6 80 90 w h r6 c6]] = [h, h, h]"
  by (simp add: rowHeightsOf_def filledCell_def filledCells_def sumOf_def)

lemma grid_colWidths: "colWidthsOf [[filledCell i1 20 10 w h r1 c1, filledCell i2 80 10 w h r2 c2],
      [filledCell i3 20 50 w h r3 c3, filledCell i4 80 50 w h r4 c4],
      [filledCell i5 20 90 w h r5 c5, filledCell i6 80 90 w h r6 c6]] (Suc (Suc 0)) = [w, w]"
  by (simp add: colWidthsOf_def filledCell_def filledCells_def sumOf_def upt_rec)

lemma consistency_uniform3:
  "v > 0 \<Longrightarrow> consistency (sumOf [v, v, v] / 3) (varianceOf [v, v, v] (sumOf [v, v, v] / 3)) = 1"
  by (simp add: consistency_def sumOf_def varianceOf_def)

lemma consistency_uniform2:
  "v > 0 \<Longrightarrow> consistency (sumOf [v, v] / 2) (varianceOf [v, v] (sumOf [v, v] / 2)) = 1"
  by (simp add: consistency_def sumOf_def varianceOf_def)

lemma grid_confidence:
  assumes "w > 0" "h > 0"
  shows "calculateConfidence [[filledCell i1 20 10 w h r1 c1, filledCell i2 80 10 w h r2 c2],
      [filledCell i3 20 50 w h r3 c3, filledCell i4 80 50 w h r4 c4],
      [filledCell i5 20 90 w h r5 c5, filledCell i6 80 90 w h r6 c6]] = 1"
  using assms
  by (simp add: calculateConfidence_def grid_countFilled grid_rowHeights grid_colWidths
        consistency_uniform3 consistency_uniform2 Let_def)

text \<open>
  Claim C3. Six blocks of one size (width and height positive) with vertical centres
  10, 10, 50, 50, 90, 90 and horizontal centres 20, 80, 20, 80, 20, 80, with
  \<open>rowTolerance = 15\<close>, \<open>columnTolerance = 20\<close>, \<open>minRows = 2\<close>, \<open>minColumns = 2\<close> and a
  confidence threshold of at most 1: the detector emits exactly one table, with 3 rows
  and 2 columns, each of the 6 grid cells bound to its source block, and confidence 1,
  hence at least 0.9.
\<close>

theorem detect_three_by_two_grid:
  assumes "w > 0" and "h > 0"
    and "rowTolerance cfg = 15" and "columnTolerance cfg = 20"
    and "minRows cfg = 2" and "minColumns cfg = 2" and "confidenceThreshold cfg \<le> 1"
  shows "\<exists>t. detectTablesOnPage (gridBlocks [i1, i2, i3, i4, i5, i6] w h) page cfg now = [t]
           \<and> rowCount t = 3 \<and> columnCount t = 2
           \<and> map (map blockId) (grid t) = [[Some i1, Some i2], [Some i3, Some i4], [Some i5, Some i6]]
           \<and> confidence t = 1 \<and> confidence t \<ge> 0.9"
proof -
  have len: "length (gridBlocks [i1, i2, i3, i4, i5, i6] w h) = 6"
    by (simp add: gridBlocks_def)
  have conf: "calculateConfidence
      [[filledCell i1 20 10 w h 0 0, filledCell i2 80 10 w h 0 1],
       [filledCell i3 20 50 w h 1 0, filledCell i4 80 50 w h 1 1],
       [filledCell i5 20 90 w h 2 0, filledCell i6 80 90 w h 2 1]] = 1"
    using assms(1,2) by (rule grid_confidence)
  show ?thesis
    unfolding detectTablesOnPage_def assms(3-6) len grid_rows Let_def grid_columns grid_cells conf
    using assms(7) by (simp add: filledCell_def)
qed

theorem detect_three_by_two_grid_witness:
  "(10::real) > 0 \<and> (6::real) > 0 \<and> confidenceThreshold defaultConfig \<le> 1
   \<and> (\<exists>t. detectTablesOnPage (gridBlocks [''a'', ''b'', ''c'', ''d'', ''e'', ''f''] 10 6)
              1 defaultConfig 0 = [t]
           \<and> rowCount t = 3 \<and> columnCount t = 2
           \<and> map (map blockId) (grid t)
               = [[Some ''a'', Some ''b''], [Some ''c'', Some ''d''], [Some ''e'', Some ''f'']]
           \<and> confidence t = 1 \<and> confidence t \<ge> 0.9)"
  using detect_three_by_two_grid
    [of 10 6 defaultConfig "''a''" "''b''" "''c''" "''d''" "''e''" "''f''" 1 0]
  by (simp add: defaultConfig_def)

subsection \<open>Blocks that share no row\<close>

lemma meanY_single: "meanY [b] = yCenter b"
  by (simp add: meanY_def)

lemma scattered_insort: "scattered tol (insort_key f b bs) = scattered tol (b # bs)"
  by (induction bs) (auto simp: list_all_iff set_insort_key abs_minus_commute)

lemma scattered_sort: "scattered tol (sort_key f bs) = scattered tol bs"
  by (induction bs) (simp_all add: scattered_insort list_all_iff)

text \<open>
  Started on a single block, the loop opens a new row for every further block when no
  two of them are within the tolerance.
\<close>

lemma rowLoop_scattered:
  "scattered tol (c # rest) \<Longrightarrow>
   map blocks (rowLoop tol rest \<lparr>row_yCenter = y, blocks = [c]\<rparr> rows)
     = map blocks rows @ map (\<lambda>b. [b]) (c # rest)"
proof (induction rest arbitrary: c y rows)
  case Nil
  then show ?case by simp
next
  case (Cons b rest)
  have far: "\<not> \<bar>yCenter b - yCenter c\<bar> \<le> tol"
    using Cons.prems by (simp add: abs_minus_commute)
  have "scattered tol (b # rest)" using Cons.prems by simp
  from Cons.IH[OF this] far show ?case
    by (simp add: meanY_single Let_def)
qed

lemma clusterIntoRows_scattered:
  assumes "scattered tol bs"
  shows "map blocks (clusterIntoRows bs tol) = map (\<lambda>b. [b]) (sort_key yCenter bs)"
proof (cases "sort_key yCenter bs")
  case Nil
  then show ?thesis by (simp add: clusterIntoRows_def)
next
  case (Cons c rest)
  have "scattered tol (c # rest)"
    using assms scattered_sort[of tol yCenter bs] Cons by simp
  from rowLoop_scattered[OF this] Cons show ?thesis
    by (simp add: clusterIntoRows_def)
qed

lemma clusterIntoRows_scattered_length:
  assumes "scattered tol bs"
  shows "length (clusterIntoRows bs tol) = length bs"
proof -
  have "length (map blocks (clusterIntoRows bs tol))
          = length (map (\<lambda>b. [b]) (sort_key yCenter bs))"
    using clusterIntoRows_scattered[OF assms] by simp
  then show ?thesis by simp
qed

lemma staggered_rows: "clusterIntoRows staggeredBlocks 15 = [\<lparr>row_yCenter = 10, blocks = [centredBlock ''a'' 20 10 10 6]\<rparr>,
      \<lparr>row_yCenter = 50, blocks = [centredBlock ''b'' 20 50 10 6]\<rparr>,
      \<lparr>row_yCenter = 90, blocks = [centredBlock ''c'' 80 90 10 6]\<rparr>,
      \<lparr>row_yCenter = 130, blocks = [centredBlock ''d'' 80 130 10 6]\<rparr>]"
  by (simp add: clusterIntoRows_def staggeredBlocks_def centredBlock_eq meanY_def)

lemma staggered_columns: "detectColumns [\<lparr>row_yCenter = 10, blocks = [centredBlock ''a'' 20 10 10 6]\<rparr>,
      \<lparr>row_yCenter = 50, blocks = [centredBlock ''b'' 20 50 10 6]\<rparr>,
      \<lparr>row_yCenter = 90, blocks = [centredBlock ''c'' 80 90 10 6]\<rparr>,
      \<lparr>row_yCenter = 130, blocks = [centredBlock ''d'' 80 130 10 6]\<rparr>] 20 2 = [20, 80]"
  by (simp add: detectColumns_def collectXCenters_def clusterColumns_def centredBlock_eq
        setAdd_def enumerate_eq_zip Let_def)

lemma staggered_grid: "buildGrid [\<lparr>row_yCenter = 10, blocks = [centredBlock ''a'' 20 10 10 6]\<rparr>,
      \<lparr>row_yCenter = 50, blocks = [centredBlock ''b'' 20 50 10 6]\<rparr>,
      \<lparr>row_yCenter = 90, blocks = [centredBlock ''c'' 80 90 10 6]\<rparr>,
      \<lparr>row_yCenter = 130, blocks = [centredBlock ''d'' 80 130 10 6]\<rparr>] [20, 80] 20 = [[filledCell ''a'' 20 10 10 6 0 0, hole 50 110 7 13 0 1],
      [filledCell ''b'' 20 50 10 6 1 0, hole 50 110 47 53 1 1],
      [hole (-10) 50 87 93 2 0, filledCell ''c'' 80 90 10 6 2 1],
      [hole (-10) 50 127 133 3 0, filledCell ''d'' 80 130 10 6 3 1]]"
  by (simp add: buildGrid_def gridCell_def emptyCell_def mathMin_def mathMax_def
        centredBlock_eq upt_rec filledCell_def hole_def Let_def)

lemma staggered_confidence: "calculateConfidence [[filledCell ''a'' 20 10 10 6 0 0, hole 50 110 7 13 0 1],
      [filledCell ''b'' 20 50 10 6 1 0, hole 50 110 47 53 1 1],
      [hole (-10) 50 87 93 2 0, filledCell ''c'' 80 90 10 6 2 1],
      [hole (-10) 50 127 133 3 0, filledCell ''d'' 80 130 10 6 3 1]] = 4 / 5"
proof -
  define g where "g = [[filledCell ''a'' 20 10 10 6 0 0, hole 50 110 7 13 0 1],
      [filledCell ''b'' 20 50 10 6 1 0, hole 50 110 47 53 1 1],
      [hole (-10) 50 87 93 2 0, filledCell ''c'' 80 90 10 6 2 1],
      [hole (-10) 50 127 133 3 0, filledCell ''d'' 80 130 10 6 3 1]]"
  have n: "length g = 4" "length (g ! 0) = 2"
    by (simp_all add: g_def)
  have f: "countFilled g = 4"
    by (simp add: g_def countFilled_def filledCell_def hole_def)
  have hs: "rowHeightsOf g = [6, 6, 6, 6]"
    by (simp add: g_def rowHeightsOf_def filledCell_def hole_def filledCells_def sumOf_def)
  have ws: "colWidthsOf g 2 = [10, 10]"
    by (simp add: g_def colWidthsOf_def filledCell_def hole_def filledCells_def sumOf_def upt_rec)
  have c1: "consistency (sumOf [6, 6, 6, 6] / 4)
              (varianceOf [6, 6, 6, 6] (sumOf [6, 6, 6, 6] / 4)) = 1"
    by (simp add: consistency_def sumOf_def varianceOf_def)
  have c2: "consistency (sumOf [10, 10] / 2) (varianceOf [10, 10] (sumOf [10, 10] / 2)) = 1"
    by (simp add: consistency_def sumOf_def varianceOf_def)
  have "calculateConfidence g = 4 / 5"
    by (simp add: calculateConfidence_def n f hs ws c1 c2 Let_def)
  then show ?thesis by (simp only: g_def)
qed

text \<open>
  Claim C4 as stated fails. The four blocks of \<open>staggeredBlocks\<close> have vertical centres
  10, 50, 90 and 130, no two within the row tolerance 15; with the default
  configuration (\<open>minRows = 2\<close>, \<open>minColumns = 2\<close>, threshold 0.7) the detector reports
  a table of 4 rows and 2 columns with confidence 0.8.
\<close>

theorem scattered_blocks_counterexample:
  "length staggeredBlocks = 4 \<and> scattered (rowTolerance defaultConfig) staggeredBlocks
   \<and> minRows defaultConfig = 2 \<and> minColumns defaultConfig = 2
   \<and> map (\<lambda>t. (rowCount t, columnCount t, confidence t))
         (detectTablesOnPage staggeredBlocks 1 defaultConfig 0) = [(4, 2, 4 / 5)]"
proof -
  have len: "length staggeredBlocks = 4"
    by (simp add: staggeredBlocks_def)
  have cfg: "rowTolerance defaultConfig = 15" "columnTolerance defaultConfig = 20"
    "minRows defaultConfig = 2" "minColumns defaultConfig = 2"
    "confidenceThreshold defaultConfig = 0.7"
    by (simp_all add: defaultConfig_def)
  have sc: "scattered 15 staggeredBlocks"
    by (simp add: staggeredBlocks_def centredBlock_eq)
  have "map (\<lambda>t. (rowCount t, columnCount t, confidence t))
         (detectTablesOnPage staggeredBlocks 1 defaultConfig 0) = [(4, 2, 4 / 5)]"
    unfolding detectTablesOnPage_def len cfg staggered_rows staggered_columns staggered_grid
      staggered_confidence Let_def
    by simp
  with len sc cfg show ?thesis by simp
qed

text \<open>
  Claim C4, amended. For a page of exactly 4 blocks, no two of them with vertical
  centres within \<open>rowTolerance\<close> of each other, and \<open>minRows = 2\<close>, \<open>minColumns = 2\<close>:
  row clustering yields 4 rows of one block each, so the row count does reach
  \<open>minRows\<close>; and the detector reports no table exactly when fewer than 2 columns are
  detected or the confidence of the grid is below the threshold.
\<close>

theorem scattered_blocks_rows:
  assumes "length bs = 4" and "scattered (rowTolerance cfg) bs"
    and "minRows cfg = 2" and "minColumns cfg = 2"
  shows "map blocks (clusterIntoRows bs (rowTolerance cfg)) = map (\<lambda>b. [b]) (sort_key yCenter bs)
         \<and> length (clusterIntoRows bs (rowTolerance cfg)) = 4
         \<and> (detectTablesOnPage bs page cfg now = [] \<longleftrightarrow>
              real (length (detectColumns (clusterIntoRows bs (rowTolerance cfg))
                             (columnTolerance cfg) 2)) < 2
              \<or> calculateConfidence
                   (buildGrid (clusterIntoRows bs (rowTolerance cfg))
                      (detectColumns (clusterIntoRows bs (rowTolerance cfg)) (columnTolerance cfg) 2)
                      (columnTolerance cfg))
                 < confidenceThreshold cfg)"
proof -
  have rows: "length (clusterIntoRows bs (rowTolerance cfg)) = 4"
    using clusterIntoRows_scattered_length[OF assms(2)] assms(1) by simp
  have "detectTablesOnPage bs page cfg now = [] \<longleftrightarrow>
          real (length (detectColumns (clusterIntoRows bs (rowTolerance cfg))
                         (columnTolerance cfg) 2)) < 2
          \<or> calculateConfidence
               (buildGrid (clusterIntoRows bs (rowTolerance cfg))
                  (detectColumns (clusterIntoRows bs (rowTolerance cfg)) (columnTolerance cfg) 2)
                  (columnTolerance cfg))
             < confidenceThreshold cfg"
    unfolding detectTablesOnPage_def assms(1,3,4) rows Let_def by auto
  with rows clusterIntoRows_scattered[OF assms(2)] show ?thesis by blast
qed

theorem scattered_blocks_rows_witness:
  "length staggeredBlocks = 4 \<and> scattered (rowTolerance defaultConfig) staggeredBlocks
   \<and> minRows defaultConfig = 2 \<and> minColumns defaultConfig = 2
   \<and> length (clusterIntoRows staggeredBlocks (rowTolerance defaultConfig)) = 4"
proof -
  have h: "length staggeredBlocks = 4" "scattered (rowTolerance defaultConfig) staggeredBlocks"
    "minRows defaultConfig = 2" "minColumns defaultConfig = 2"
    by (simp_all add: staggeredBlocks_def defaultConfig_def centredBlock_eq)
  from scattered_blocks_rows[OF h] h show ?thesis by blast
qed

subsection \<open>The centre of a column cluster\<close>

text \<open>
  Claim C5 fails on the code. Two rows with one block each, horizontal centres 0 and
  10, column tolerance 20: both centres are merged into one cluster, whose centre
  comes out as \<open>10 / 3\<close>, while the mean of 0 and 10 is 5. The update weighs the old
  centre with the number of distinct rows of the cluster, counted after the row of the
  new item has been added, and not with the number of centres merged so far.
\<close>

theorem column_center_not_mean:
  "clusterColumns 20 [\<lparr>item_x = 0, rowIdx = 0\<rparr>, \<lparr>item_x = 10, rowIdx = 1\<rparr>]
     = [\<lparr>col_xCenter = 10 / 3, rowSet = [0, 1]\<rparr>]
   \<and> detectColumns
        [\<lparr>row_yCenter = 0, blocks = [centredBlock ''a'' 0 0 10 6]\<rparr>,
         \<lparr>row_yCenter = 100, blocks = [centredBlock ''b'' 10 100 10 6]\<rparr>] 20 2 = [10 / 3]"
  by (simp add: detectColumns_def collectXCenters_def clusterColumns_def centredBlock_eq
        setAdd_def enumerate_eq_zip Let_def)

section \<open>Properties of the event bus\<close>

lemma record_effect_twice: "record_effect b (record_effect a s) = record_effect (a @ b) s"
  by (simp add: record_effect_def)

lemma emitLoop_closed: "emitLoop ev d hs s = (None, record_effect (listenerEffects ev d hs) s)"
proof (induction hs arbitrary: s)
  case Nil
  show ?case by (simp add: listenerEffects_def record_effect_def)
next
  case (Cons h hs)
  show ?case
    by (cases "react h d") (simp_all add: Cons.IH record_effect_twice listenerEffects_def)
qed

lemma emit_closed:
  "emit s ev d = (None, record_effect (Emitted ev d # listenerEffects ev d (listeners s ev)) s)"
  by (simp add: emit_def emitLoop_closed record_effect_twice record_effect_def)

lemma on_appends:
  "listeners (on s ev h) ev = (if h \<in> set (listeners s ev) then listeners s ev else listeners s ev @ [h])"
  by (simp add: on_def setAdd_def)

text \<open>
  Claim C9. For every topic and payload, \<open>emit\<close> returns without an exception, and
  what it does is: every listener registered for the topic is called with the
  payload, one after the other in registration order (\<open>on\<close> appends a new listener at
  the end); a listener that throws has its exception logged, and the listeners after
  it are called all the same. Nothing but the trace of effects changes.
\<close>

theorem emit_calls_every_listener:
  "emit s ev d =
     (None, s\<lparr>trace := trace s @ Emitted ev d #
        concat (map (\<lambda>h. ListenerCalled (lid h) ev d #
                        (case react h d of None \<Rightarrow> [] | Some e \<Rightarrow> [ConsoleError ev e]))
                    (listeners s ev))\<rparr>)
   \<and> listeners (on s ev h) ev
       = (if h \<in> set (listeners s ev) then listeners s ev else listeners s ev @ [h])"
  by (simp add: emit_closed record_effect_def listenerEffects_def on_appends)

section \<open>Properties of the registry\<close>

lemma getPlugin_mem: "getPlugin s n = Some p \<Longrightarrow> p \<in> set (getPlugins s)"
  by (auto simp: getPlugin_def getPlugins_def dest: map_of_SomeD intro: rev_image_eqI)

lemma getPlugin_deletePlugin: "getPlugin (deletePlugin s n) n = None"
  by (simp add: getPlugin_def deletePlugin_def map_of_eq_None_iff image_iff)

lemma pendingCleanupManager_eq:
  "pendingCleanupManager =
     \<lparr>plugins = [(''p'', readyPlugin ''p'' idleHandler (Some CleanupPending) None)],
      enabledPlugins = [''p''], pluginConfigs = Map.empty, listeners = (\<lambda>_. []),
      trace = [Emitted PluginRegistered (NameData ''p'')]\<rparr>"
  by (simp add: pendingCleanupManager_def registerAll_def register_def getPlugin_def
      readyPlugin_def newManager_def emit_closed record_effect_def Let_def setAdd_def
      listenerEffects_def)

text \<open>
  Claim C7 as stated fails. The plugin \<open>p\<close> of \<open>pendingCleanupManager\<close> has a cleanup
  that returns a pending promise. \<open>unregister\<close> calls it and returns with the plugin
  gone from \<open>getPlugins()\<close>, while the cleanup has not settled: nothing awaited it.
\<close>

theorem unregister_pending_cleanup_counterexample:
  "fst (unregister pendingCleanupManager ''p'') = None
   \<and> getPlugins (snd (unregister pendingCleanupManager ''p'')) = []
   \<and> trace (snd (unregister pendingCleanupManager ''p''))
       = [Emitted PluginRegistered (NameData ''p''), CleanupCalled ''p'' [''p''],
          Emitted PluginUnregistered (NameData ''p'')]
   \<and> CleanupSettled ''p'' \<notin> set (trace (snd (unregister pendingCleanupManager ''p'')))"
  by (simp add: pendingCleanupManager_eq unregister_def callCleanup_def getPlugin_def
      getPlugins_def readyPlugin_def emit_closed record_effect_def deletePlugin_def
      listenerEffects_def)

text \<open>
  Claim C7, amended. For every registered plugin with a cleanup function that returns
  (with its work done, or with a promise still pending), \<open>unregister\<close> calls the cleanup
  exactly once, at a moment when \<open>getPlugins()\<close> still lists the plugin, does not
  await it (the cleanup is settled at that point only if it had settled on return), then
  removes the plugin from the manifest map, the enabled set and the config map and
  publishes \<open>plugin:unregistered\<close>. If the name is not registered, no cleanup is called
  and no error is thrown.
\<close>

theorem unregister_cleanup_once:
  "(getPlugin s n = Some p \<and> cleanup p = Some c \<and> (c = CleanupDone \<or> c = CleanupPending)
      \<longrightarrow> (\<exists>s'. unregister s n = (None, s')
            \<and> trace s' = trace s @ CleanupCalled n (map name (getPlugins s))
                 # (if c = CleanupDone then [CleanupSettled n] else [])
                 @ Emitted PluginUnregistered (NameData n)
                 # listenerEffects PluginUnregistered (NameData n) (listeners s PluginUnregistered)
            \<and> name p \<in> set (map name (getPlugins s))
            \<and> getPlugin s' n = None \<and> n \<notin> set (enabledPlugins s') \<and> pluginConfigs s' n = None))
   \<and> (getPlugin s m = None
      \<longrightarrow> (\<exists>s'. unregister s m = (None, s')
            \<and> trace s' = trace s @ Emitted PluginUnregistered (NameData m)
                 # listenerEffects PluginUnregistered (NameData m) (listeners s PluginUnregistered)))"
proof (intro conjI impI)
  assume a: "getPlugin s n = Some p \<and> cleanup p = Some c \<and> (c = CleanupDone \<or> c = CleanupPending)"
  then have mem: "name p \<in> set (map name (getPlugins s))"
    using getPlugin_mem[of s n p] by auto
  from a show "\<exists>s'. unregister s n = (None, s')
            \<and> trace s' = trace s @ CleanupCalled n (map name (getPlugins s))
                 # (if c = CleanupDone then [CleanupSettled n] else [])
                 @ Emitted PluginUnregistered (NameData n)
                 # listenerEffects PluginUnregistered (NameData n) (listeners s PluginUnregistered)
            \<and> name p \<in> set (map name (getPlugins s))
            \<and> getPlugin s' n = None \<and> n \<notin> set (enabledPlugins s') \<and> pluginConfigs s' n = None"
    using mem getPlugin_deletePlugin[of _ n]
    by (auto simp: unregister_def callCleanup_def emit_closed record_effect_def Let_def
          deletePlugin_def getPlugin_def)
next
  assume "getPlugin s m = None"
  then show "\<exists>s'. unregister s m = (None, s')
            \<and> trace s' = trace s @ Emitted PluginUnregistered (NameData m)
                 # listenerEffects PluginUnregistered (NameData m) (listeners s PluginUnregistered)"
    by (simp add: unregister_def callCleanup_def emit_closed record_effect_def deletePlugin_def)
qed

theorem unregister_cleanup_once_witness:
  "getPlugin pendingCleanupManager ''p''
      = Some (readyPlugin ''p'' idleHandler (Some CleanupPending) None)
   \<and> getPlugin pendingCleanupManager ''q'' = None
   \<and> (\<exists>s'. unregister pendingCleanupManager ''p'' = (None, s')
         \<and> trace s' = trace pendingCleanupManager @
              [CleanupCalled ''p'' [''p''], Emitted PluginUnregistered (NameData ''p'')]
         \<and> getPlugin s' ''p'' = None \<and> ''p'' \<notin> set (enabledPlugins s')
         \<and> pluginConfigs s' ''p'' = None)
   \<and> (\<exists>s'. unregister pendingCleanupManager ''q'' = (None, s')
         \<and> trace s' = trace pendingCleanupManager @ [Emitted PluginUnregistered (NameData ''q'')])"
proof -
  have h: "getPlugin pendingCleanupManager ''p''
             = Some (readyPlugin ''p'' idleHandler (Some CleanupPending) None)"
    "cleanup (readyPlugin ''p'' idleHandler (Some CleanupPending) None) = Some CleanupPending"
    "getPlugin pendingCleanupManager ''q'' = None"
    "map name (getPlugins pendingCleanupManager) = [''p'']"
    "listeners pendingCleanupManager PluginUnregistered = []"
    by (simp_all add: pendingCleanupManager_eq getPlugin_def getPlugins_def readyPlugin_def)
  show ?thesis
    using unregister_cleanup_once
      [of pendingCleanupManager "''p''" "readyPlugin ''p'' idleHandler (Some CleanupPending) None"
          CleanupPending "''q''"]
    by (simp add: h listenerEffects_def) blast
qed

subsection \<open>The registry invariant\<close>

text \<open>
  A new manager is well formed, and every method keeps the registry well formed.
\<close>

lemma wellFormed_newManager: "wellFormed newManager"
  by (simp add: wellFormed_def newManager_def)

lemma wellFormed_emit: "wellFormed (snd (emit s ev d)) = wellFormed s"
  by (simp add: wellFormed_def emit_closed record_effect_def)

lemma wellFormed_register: "wellFormed s \<Longrightarrow> wellFormed (snd (register s p))"
  by (auto simp: register_def wellFormed_def emit_closed record_effect_def getPlugin_def
      Let_def map_of_eq_None_iff split: option.splits)

lemma wellFormed_unregister: "wellFormed s \<Longrightarrow> wellFormed (snd (unregister s n))"
  by (auto simp: unregister_def callCleanup_def wellFormed_def emit_closed record_effect_def
      deletePlugin_def Let_def list_all_iff distinct_map_filter
      split: option.splits cleanup_run.splits)

lemma wellFormed_enable: "wellFormed s \<Longrightarrow> wellFormed (snd (enable s n))"
  by (simp add: enable_def wellFormed_def emit_closed record_effect_def)

lemma wellFormed_disable: "wellFormed s \<Longrightarrow> wellFormed (snd (disable s n))"
  by (simp add: disable_def wellFormed_def emit_closed record_effect_def)

lemma wellFormed_setConfig: "wellFormed s \<Longrightarrow> wellFormed (snd (setConfig s n c))"
  by (simp add: setConfig_def wellFormed_def emit_closed record_effect_def Let_def)

lemma wellFormed_perform: "wellFormed s \<Longrightarrow> wellFormed (perform n s a)"
  by (cases a) (simp_all add: wellFormed_register wellFormed_unregister wellFormed_enable
      wellFormed_disable wellFormed_setConfig wellFormed_emit)

section \<open>Properties of command execution\<close>

lemma quoted_not_enabled: "sublist ''not enabled'' (quoted n '' is not enabled'')"
proof -
  have "quoted n '' is not enabled''
          = (''Plugin '' @ [CHR 0x22] @ n @ [CHR 0x22] @ '' is '') @ ''not enabled'' @ []"
    by (simp add: quoted_def)
  then show ?thesis unfolding sublist_def by blast
qed

text \<open>
  Claim C6. For every plugin name: if the plugin is registered, owns a command with
  the given id and is not enabled, \<open>executeCommand\<close> resolves to a result with
  \<open>success = false\<close> whose error message contains ``not enabled'', and it leaves the
  manager as it was: no event is published and the command's handler is not invoked.
\<close>

theorem executeCommand_disabled:
  assumes "getPlugin s pluginName = Some plugin"
    and "commands plugin = Some cs" and "commandId \<in> cmd_id ` set cs"
    and "\<not> isEnabled s pluginName"
  shows "\<exists>r msg. executeCommand s pluginName commandId target = (Inr r, s)
           \<and> cmd_success r = False \<and> cmd_error r = Some msg \<and> sublist ''not enabled'' msg"
proof -
  from assms(3) obtain c where "find (\<lambda>c. cmd_id c = commandId) cs = Some c"
    by (cases "find (\<lambda>c. cmd_id c = commandId) cs") (auto simp: find_None_iff)
  with assms(1,2,4) have "executeCommand s pluginName commandId target
      = (Inr (commandFailure (quoted pluginName '' is not enabled'')), s)"
    by (simp add: executeCommand_def)
  then show ?thesis
    using quoted_not_enabled[of pluginName] by (simp add: commandFailure_def)
qed

theorem executeCommand_disabled_witness:
  "\<exists>r msg. executeCommand disabledCommandManager ''test-plugin'' ''test-cmd'' testTarget
              = (Inr r, disabledCommandManager)
           \<and> cmd_success r = False \<and> cmd_error r = Some msg \<and> sublist ''not enabled'' msg"
proof -
  have h: "getPlugin disabledCommandManager ''test-plugin''
     = Some (VdomPlugin ''test-plugin'' ''Test plugin'' [] idleHandler (Some [testCommand])
                    None (Some False) None None)"
    "commands (VdomPlugin ''test-plugin'' ''Test plugin'' [] idleHandler (Some [testCommand])
                    None (Some False) None None) = Some [testCommand]"
    "''test-cmd'' \<in> cmd_id ` set [testCommand]"
    "\<not> isEnabled disabledCommandManager ''test-plugin''"
    by (simp_all add: disabledCommandManager_def registerAll_def register_def getPlugin_def
      newManager_def emit_closed record_effect_def isEnabled_def Let_def testCommand_def)
  show ?thesis by (rule executeCommand_disabled[OF h])
qed

section \<open>Properties of dependency resolution\<close>

subsection \<open>Dependency cycles\<close>

text \<open>
  Let \<open>\<sigma>\<close> be a set of registered names, none of them resolved yet, each with a
  dependency in \<open>\<sigma>\<close> (a cycle is such a set). Then, whatever the stack depth,
  \<open>resolve\<close> fails on every name of \<open>\<sigma>\<close>, and a call that returns leaves \<open>\<sigma>\<close>
  unresolved.
\<close>

lemma forEachName_trap:
  assumes step: "\<And>n st. \<sigma> \<inter> set (snd st) = {} \<Longrightarrow>
      (n \<in> \<sigma> \<longrightarrow> f n st = None) \<and> (\<forall>st'. f n st = Some st' \<longrightarrow> \<sigma> \<inter> set (snd st') = {})"
  shows "\<sigma> \<inter> set (snd st) = {} \<Longrightarrow>
      (set ns \<inter> \<sigma> \<noteq> {} \<longrightarrow> forEachName f ns st = None)
      \<and> (\<forall>st'. forEachName f ns st = Some st' \<longrightarrow> \<sigma> \<inter> set (snd st') = {})"
proof (induction ns arbitrary: st)
  case Nil
  then show ?case by simp
next
  case (Cons n ns)
  show ?case
  proof (cases "f n st")
    case None
    then show ?thesis by simp
  next
    case (Some st1)
    with step[OF Cons.prems, of n] have n: "n \<notin> \<sigma>" and st1: "\<sigma> \<inter> set (snd st1) = {}"
      by auto
    from Cons.IH[OF st1] Some n show ?thesis by auto
  qed
qed

lemma resolve_trap:
  assumes trap: "\<And>a. a \<in> \<sigma> \<Longrightarrow> \<exists>p. getPlugin s a = Some p \<and> set (dependencyList p) \<inter> \<sigma> \<noteq> {}"
  shows "\<sigma> \<inter> set (snd st) = {} \<Longrightarrow>
      (n \<in> \<sigma> \<longrightarrow> resolve s ev k n st = None)
      \<and> (\<forall>st'. resolve s ev k n st = Some st' \<longrightarrow> \<sigma> \<inter> set (snd st') = {})"
proof (induction k arbitrary: n st)
  case 0
  show ?case by simp
next
  case (Suc k)
  obtain run res where st: "st = (run, res)" by (cases st)
  have loop: "\<And>ns st0. \<sigma> \<inter> set (snd st0) = {} \<Longrightarrow>
      (set ns \<inter> \<sigma> \<noteq> {} \<longrightarrow> forEachName (\<lambda>dep st. resolve s ev k dep st) ns st0 = None)
      \<and> (\<forall>st'. forEachName (\<lambda>dep st. resolve s ev k dep st) ns st0 = Some st'
            \<longrightarrow> \<sigma> \<inter> set (snd st') = {})"
    by (rule forEachName_trap) (use Suc.IH in blast)
  show ?case
  proof (cases "n \<in> set res")
    case True
    with Suc.prems st show ?thesis by auto
  next
    case nres: False
    show ?thesis
    proof (cases "getPlugin s n")
      case None
      with nres Suc.prems st trap[of n] show ?thesis by auto
    next
      case (Some p)
      show ?thesis
      proof (cases "forEachName (\<lambda>dep st. resolve s ev k dep st) (dependencyList p) (run, res)")
        case None
        with nres Some st show ?thesis by simp
      next
        case (Some st1)
        obtain run1 res1 where st1: "st1 = (run1, res1)" by (cases st1)
        from loop[of "(run, res)" "dependencyList p"] Suc.prems st Some
        have nodep: "set (dependencyList p) \<inter> \<sigma> = {}" and keep: "\<sigma> \<inter> set res1 = {}"
          by (auto simp: st1)
        from nodep trap[of n] \<open>getPlugin s n = Some p\<close> have "n \<notin> \<sigma>" by auto
        with keep nres \<open>getPlugin s n = Some p\<close> Some st st1 show ?thesis
          by (auto simp: setAdd_def)
      qed
    qed
  qed
qed

lemma getPluginsForEvent_trap:
  assumes trap: "\<And>a. a \<in> \<sigma> \<Longrightarrow> \<exists>p. getPlugin s a = Some p \<and> set (dependencyList p) \<inter> \<sigma> \<noteq> {}"
    and ne: "\<sigma> \<noteq> {}"
  shows "getPluginsForEvent frames s ev = None"
proof -
  from ne obtain a where a: "a \<in> \<sigma>" by auto
  with trap obtain p where "getPlugin s a = Some p" by blast
  then have "a \<in> set (map fst (plugins s))"
    by (auto simp: getPlugin_def dest: map_of_SomeD intro: rev_image_eqI)
  with a have hit: "set (map fst (plugins s)) \<inter> \<sigma> \<noteq> {}" by auto
  have "\<And>n st. \<sigma> \<inter> set (snd st) = {} \<Longrightarrow>
      (n \<in> \<sigma> \<longrightarrow> resolve s ev frames n st = None)
      \<and> (\<forall>st'. resolve s ev frames n st = Some st' \<longrightarrow> \<sigma> \<inter> set (snd st') = {})"
    using resolve_trap[OF trap] by blast
  from forEachName_trap[of \<sigma> "\<lambda>n st. resolve s ev frames n st", OF this, of "([], [])" "map fst (plugins s)"] hit
  have "forEachName (\<lambda>n st. resolve s ev frames n st) (map fst (plugins s)) ([], []) = None"
    by simp
  then show ?thesis by (simp add: getPluginsForEvent_def)
qed

lemma cyclicManager_eq:
  "cyclicManager =
     \<lparr>plugins = [(''A'', readyPlugin ''A'' idleHandler None (Some [''B''])),
                 (''B'', readyPlugin ''B'' idleHandler None (Some [''A'']))],
      enabledPlugins = [''A'', ''B''], pluginConfigs = Map.empty, listeners = (\<lambda>_. []),
      trace = [Emitted PluginRegistered (NameData ''A''), Emitted PluginRegistered (NameData ''B'')]\<rparr>"
  by (simp add: cyclicManager_def registerAll_def register_def getPlugin_def
      readyPlugin_def newManager_def emit_closed record_effect_def Let_def setAdd_def
      listenerEffects_def)

lemma acyclicManager_eq:
  "acyclicManager =
     \<lparr>plugins = [(''A'', readyPlugin ''A'' idleHandler None (Some [''B''])),
                 (''B'', readyPlugin ''B'' idleHandler None None)],
      enabledPlugins = [''A'', ''B''], pluginConfigs = Map.empty, listeners = (\<lambda>_. []),
      trace = [Emitted PluginRegistered (NameData ''A''), Emitted PluginRegistered (NameData ''B'')]\<rparr>"
  by (simp add: acyclicManager_def registerAll_def register_def getPlugin_def
      readyPlugin_def newManager_def emit_closed record_effect_def Let_def setAdd_def
      listenerEffects_def)

text \<open>
  Claim C1 fails on the code. Plugins \<open>A\<close> and \<open>B\<close> depend on each other. Since a name
  is marked as resolved only after its dependencies have been visited, \<open>resolve\<close>
  recurses from \<open>A\<close> to \<open>B\<close> to \<open>A\<close> without end: for every stack depth the resolution
  runs out of frames, and \<open>runEvent\<close> fails with the \<open>RangeError\<close> instead of
  returning a truncated run list. Without the back edge, two frames suffice and the
  run list is \<open>B\<close>, \<open>A\<close>.
\<close>

theorem cyclic_dependencies_overflow:
  "(\<forall>frames. getPluginsForEvent frames cyclicManager Ready = None
       \<and> fst (runEvent frames cyclicManager Ready (Snapshot ''doc'')) = Inl stackOverflow)
   \<and> map_option (map name) (getPluginsForEvent 2 acyclicManager Ready) = Some [''B'', ''A'']"
proof -
  have trap: "\<And>a. a \<in> {''A'', ''B''} \<Longrightarrow>
      \<exists>p. getPlugin cyclicManager a = Some p \<and> set (dependencyList p) \<inter> {''A'', ''B''} \<noteq> {}"
    by (auto simp: cyclicManager_eq getPlugin_def readyPlugin_def dependencyList_def)
  have none: "getPluginsForEvent frames cyclicManager Ready = None" for frames
    by (rule getPluginsForEvent_trap[OF trap]) auto
  have ok: "map_option (map name) (getPluginsForEvent 2 acyclicManager Ready) = Some [''B'', ''A'']"
    by (simp add: getPluginsForEvent_def acyclicManager_eq numeral_2_eq_2 getPlugin_def
        readyPlugin_def dependencyList_def setAdd_def)
  from none ok show ?thesis by (simp add: runEvent_def)
qed

subsection \<open>The run list names each plugin once\<close>

text \<open>
  A name that gets resolved during a call of \<open>resolve\<close> is reachable from the call's
  argument along dependency edges between names that were unresolved when the call
  began. So if the loop over the dependencies of \<open>n\<close> resolved \<open>n\<close> itself, \<open>n\<close> would
  lie on a cycle of unresolved names, and the call could not have returned. Hence a
  plugin is pushed at most once, and with distinct, truthful registry keys the run
  list has distinct names.
\<close>

lemma pendingEdges_antimono: "R \<subseteq> R' \<Longrightarrow> pendingEdges s R' \<subseteq> pendingEdges s R"
  by (auto simp: pendingEdges_def)

lemma forEachName_mono:
  assumes step: "\<And>n st st'. f n st = Some st' \<Longrightarrow> set (snd st) \<subseteq> set (snd st')"
  shows "forEachName f ns st = Some st' \<Longrightarrow> set (snd st) \<subseteq> set (snd st')"
proof (induction ns arbitrary: st)
  case Nil
  then show ?case by simp
next
  case (Cons n ns)
  then obtain st1 where 1: "f n st = Some st1" and 2: "forEachName f ns st1 = Some st'"
    by (auto split: option.splits)
  from step[OF 1] Cons.IH[OF 2] show ?case by blast
qed

lemma resolve_mono:
  "resolve s ev k n st = Some st' \<Longrightarrow> set (snd st) \<subseteq> set (snd st')"
proof (induction k arbitrary: n st st')
  case 0
  then show ?case by simp
next
  case (Suc k)
  obtain run res where st: "st = (run, res)" by (cases st)
  have loop: "forEachName (\<lambda>dep st. resolve s ev k dep st) ns st0 = Some st1
      \<Longrightarrow> set (snd st0) \<subseteq> set (snd st1)" for ns st0 st1
    using forEachName_mono[of "resolve s ev k" ns st0 st1] Suc.IH by blast
  from Suc.prems st loop show ?case
    by (auto simp: setAdd_def split: if_splits option.splits dest!: loop)
qed

lemma forEachName_path:
  assumes mono: "\<And>n st st'. f n st = Some st' \<Longrightarrow> set (snd st) \<subseteq> set (snd st')"
    and step: "\<And>n st st'. f n st = Some st' \<Longrightarrow> x \<in> set (snd st') \<Longrightarrow> x \<notin> set (snd st)
                 \<Longrightarrow> (n, x) \<in> (pendingEdges s (set (snd st)))\<^sup>*"
  shows "forEachName f ns st = Some st' \<Longrightarrow> x \<in> set (snd st') \<Longrightarrow> x \<notin> set (snd st)
           \<Longrightarrow> \<exists>d\<in>set ns. (d, x) \<in> (pendingEdges s (set (snd st)))\<^sup>*"
proof (induction ns arbitrary: st)
  case Nil
  then show ?case by simp
next
  case (Cons n ns)
  from Cons.prems(1) obtain st1 where 1: "f n st = Some st1"
    and 2: "forEachName f ns st1 = Some st'"
    by (auto split: option.splits)
  show ?case
  proof (cases "x \<in> set (snd st1)")
    case True
    from step[OF 1 True Cons.prems(3)] show ?thesis by auto
  next
    case False
    from Cons.IH[OF 2 Cons.prems(2) False] obtain d where d: "d \<in> set ns"
      and p: "(d, x) \<in> (pendingEdges s (set (snd st1)))\<^sup>*" by blast
    from mono[OF 1] have "pendingEdges s (set (snd st1)) \<subseteq> pendingEdges s (set (snd st))"
      by (rule pendingEdges_antimono)
    from rtrancl_mono[OF this] p d show ?thesis by auto
  qed
qed

lemma resolve_path:
  "resolve s ev k n st = Some st' \<Longrightarrow> x \<in> set (snd st') \<Longrightarrow> x \<notin> set (snd st)
     \<Longrightarrow> (n, x) \<in> (pendingEdges s (set (snd st)))\<^sup>*"
proof (induction k arbitrary: n st st')
  case 0
  then show ?case by simp
next
  case (Suc k)
  obtain run res where st: "st = (run, res)" by (cases st)
  from Suc.prems st have nres: "n \<notin> set res" by (auto split: if_splits)
  from Suc.prems st nres obtain p where p: "getPlugin s n = Some p"
    by (auto split: option.splits)
  from Suc.prems(1) st nres p obtain run1 res1 where
    loop: "forEachName (\<lambda>dep st. resolve s ev k dep st) (dependencyList p) (run, res) = Some (run1, res1)"
    and res': "snd st' = setAdd n res1"
    by (auto split: option.splits)
  show ?case
  proof (cases "x = n")
    case True
    then show ?thesis by simp
  next
    case False
    with Suc.prems(2) res' have x1: "x \<in> set res1" by (auto simp: setAdd_def split: if_splits)
    have "\<exists>d\<in>set (dependencyList p). (d, x) \<in> (pendingEdges s (set (snd (run, res))))\<^sup>*"
    proof (rule forEachName_path[where f = "\<lambda>dep st. resolve s ev k dep st" and st' = "(run1, res1)"])
      show "\<And>n st st'. resolve s ev k n st = Some st' \<Longrightarrow> set (snd st) \<subseteq> set (snd st')"
        by (rule resolve_mono)
      show "\<And>n st st'. resolve s ev k n st = Some st' \<Longrightarrow> x \<in> set (snd st') \<Longrightarrow> x \<notin> set (snd st)
                 \<Longrightarrow> (n, x) \<in> (pendingEdges s (set (snd st)))\<^sup>*"
        using Suc.IH by blast
      show "forEachName (\<lambda>dep st. resolve s ev k dep st) (dependencyList p) (run, res) = Some (run1, res1)"
        by (rule loop)
      show "x \<in> set (snd (run1, res1))" using x1 by simp
      show "x \<notin> set (snd (run, res))" using Suc.prems(3) st by simp
    qed
    then obtain d where d: "d \<in> set (dependencyList p)"
      and dx: "(d, x) \<in> (pendingEdges s (set res))\<^sup>*" by auto
    from nres p d have "(n, d) \<in> pendingEdges s (set res)" by (auto simp: pendingEdges_def)
    with dx show ?thesis using st by (simp add: converse_rtrancl_into_rtrancl)
  qed
qed


lemma resolve_no_self:
  assumes ok: "resolve s ev (Suc k) n (run, res) \<noteq> None"
    and nres: "n \<notin> set res" and p: "getPlugin s n = Some p"
    and loop: "forEachName (\<lambda>dep st. resolve s ev k dep st) (dependencyList p) (run, res)
                 = Some (run1, res1)"
  shows "n \<notin> set res1"
proof
  assume n1: "n \<in> set res1"
  have "\<exists>d\<in>set (dependencyList p). (d, n) \<in> (pendingEdges s (set (snd (run, res))))\<^sup>*"
  proof (rule forEachName_path[where f = "\<lambda>dep st. resolve s ev k dep st" and st' = "(run1, res1)"])
    show "\<And>n st st'. resolve s ev k n st = Some st' \<Longrightarrow> set (snd st) \<subseteq> set (snd st')"
      by (rule resolve_mono)
    show "\<And>m st st'. resolve s ev k m st = Some st' \<Longrightarrow> n \<in> set (snd st') \<Longrightarrow> n \<notin> set (snd st)
                 \<Longrightarrow> (m, n) \<in> (pendingEdges s (set (snd st)))\<^sup>*"
      by (rule resolve_path)
    show "forEachName (\<lambda>dep st. resolve s ev k dep st) (dependencyList p) (run, res) = Some (run1, res1)"
      by (rule loop)
    show "n \<in> set (snd (run1, res1))" using n1 by simp
    show "n \<notin> set (snd (run, res))" using nres by simp
  qed
  then obtain d where d: "d \<in> set (dependencyList p)"
    and dn: "(d, n) \<in> (pendingEdges s (set res))\<^sup>*" by auto
  from nres p d have nd: "(n, d) \<in> pendingEdges s (set res)" by (auto simp: pendingEdges_def)
  define \<sigma> where "\<sigma> = {a. (n, a) \<in> (pendingEdges s (set res))\<^sup>* \<and> (a, n) \<in> (pendingEdges s (set res))\<^sup>*}"
  have n\<sigma>: "n \<in> \<sigma>" by (simp add: \<sigma>_def)
  have succ: "\<exists>b. (a, b) \<in> pendingEdges s (set res) \<and> b \<in> \<sigma>" if a: "a \<in> \<sigma>" for a
  proof (cases "a = n")
    case True
    from nd dn have "d \<in> \<sigma>" by (auto simp: \<sigma>_def)
    with nd True show ?thesis by blast
  next
    case False
    from a have an: "(a, n) \<in> (pendingEdges s (set res))\<^sup>*" and na: "(n, a) \<in> (pendingEdges s (set res))\<^sup>*"
      by (auto simp: \<sigma>_def)
    from an False obtain b where ab: "(a, b) \<in> pendingEdges s (set res)"
      and bn: "(b, n) \<in> (pendingEdges s (set res))\<^sup>*"
      by (auto elim: converse_rtranclE)
    from na ab have "(n, b) \<in> (pendingEdges s (set res))\<^sup>*" by (rule rtrancl_into_rtrancl)
    with bn have "b \<in> \<sigma>" by (simp add: \<sigma>_def)
    with ab show ?thesis by blast
  qed
  have trap: "\<exists>q. getPlugin s a = Some q \<and> set (dependencyList q) \<inter> \<sigma> \<noteq> {}" if "a \<in> \<sigma>" for a
    using succ[OF that] by (auto simp: pendingEdges_def)
  have unres: "\<sigma> \<inter> set (snd (run, res)) = {}"
  proof -
    have "a \<notin> set res" if "a \<in> \<sigma>" for a
      using succ[OF that] by (auto simp: pendingEdges_def)
    then show ?thesis by auto
  qed
  from resolve_trap[of \<sigma> s "(run, res)" n ev "Suc k", OF trap unres] n\<sigma>
  have "resolve s ev (Suc k) n (run, res) = None" by blast
  with ok show False by simp
qed

lemma wellFormed_name: "wellFormed s \<Longrightarrow> getPlugin s n = Some p \<Longrightarrow> name p = n"
  by (auto simp: wellFormed_def getPlugin_def list_all_iff dest!: map_of_SomeD)

lemma forEachName_distinct:
  assumes step: "\<And>n st st'. f n st = Some st' \<Longrightarrow>
       distinct (map name (fst st)) \<and> name ` set (fst st) \<subseteq> set (snd st) \<Longrightarrow>
       distinct (map name (fst st')) \<and> name ` set (fst st') \<subseteq> set (snd st')"
  shows "forEachName f ns st = Some st' \<Longrightarrow>
       distinct (map name (fst st)) \<and> name ` set (fst st) \<subseteq> set (snd st) \<Longrightarrow>
       distinct (map name (fst st')) \<and> name ` set (fst st') \<subseteq> set (snd st')"
proof (induction ns arbitrary: st)
  case Nil
  then show ?case by simp
next
  case (Cons n ns)
  from Cons.prems(1) obtain st1 where 1: "f n st = Some st1"
    and 2: "forEachName f ns st1 = Some st'"
    by (auto split: option.splits)
  from Cons.IH[OF 2 step[OF 1 Cons.prems(2)]] show ?case .
qed

lemma resolve_distinct:
  assumes wf: "wellFormed s"
  shows "resolve s ev k n st = Some st' \<Longrightarrow>
       distinct (map name (fst st)) \<and> name ` set (fst st) \<subseteq> set (snd st) \<Longrightarrow>
       distinct (map name (fst st')) \<and> name ` set (fst st') \<subseteq> set (snd st')"
proof (induction k arbitrary: n st st')
  case 0
  then show ?case by simp
next
  case (Suc k)
  obtain run res where st: "st = (run, res)" by (cases st)
  show ?case
  proof (cases "n \<in> set res \<or> getPlugin s n = None")
    case True
    with Suc.prems(1) st have "st' = st" by (auto split: if_splits)
    with Suc.prems(2) show ?thesis by simp
  next
    case False
    then have nres: "n \<notin> set res" and "getPlugin s n \<noteq> None" by auto
    then obtain p where p: "getPlugin s n = Some p" by auto
    from Suc.prems(1) st nres p obtain run1 res1 where
      loop: "forEachName (\<lambda>dep st. resolve s ev k dep st) (dependencyList p) (run, res) = Some (run1, res1)"
      and st': "st' = (if ev \<in> set (runsOn p) then run1 @ [p] else run1, setAdd n res1)"
      by (auto split: option.splits)
    have inv1: "distinct (map name (fst (run1, res1))) \<and> name ` set (fst (run1, res1)) \<subseteq> set (snd (run1, res1))"
      using forEachName_distinct[of "resolve s ev k" "dependencyList p" "(run, res)" "(run1, res1)"]
        Suc.IH loop Suc.prems(2) st by blast
    have "resolve s ev (Suc k) n (run, res) \<noteq> None" using Suc.prems(1) st by simp
    from resolve_no_self[OF this nres p loop] have n1: "n \<notin> set res1" .
    from wellFormed_name[OF wf p] have np: "name p = n" .
    from inv1 n1 np show ?thesis
      by (auto simp: st' setAdd_def)
  qed
qed

lemma getPluginsForEvent_distinct:
  assumes "wellFormed s" and "getPluginsForEvent frames s ev = Some ps"
  shows "distinct (map name ps)"
proof -
  from assms(2) obtain st' where
    loop: "forEachName (\<lambda>n st. resolve s ev frames n st) (map fst (plugins s)) ([], []) = Some st'"
    and ps: "ps = fst st'"
    by (auto simp: getPluginsForEvent_def)
  have "distinct (map name (fst st')) \<and> name ` set (fst st') \<subseteq> set (snd st')"
    using forEachName_distinct[of "resolve s ev frames" "map fst (plugins s)" "([], [])" st']
      resolve_distinct[OF assms(1)] loop by auto
  with ps show ?thesis by simp
qed

section \<open>Properties of lifecycle dispatch\<close>

subsection \<open>The dispatch loop, turn by turn\<close>

lemma record_effect_fields [simp]:
  "plugins (record_effect es s) = plugins s"
  "enabledPlugins (record_effect es s) = enabledPlugins s"
  "pluginConfigs (record_effect es s) = pluginConfigs s"
  "listeners (record_effect es s) = listeners s"
  "trace (record_effect es s) = trace s @ es"
  by (simp_all add: record_effect_def)

lemma emit_fst [simp]: "fst (emit s ev d) = None"
  by (simp add: emit_closed)

lemma emit_snd: "snd (emit s ev d) = record_effect (Emitted ev d # listenerEffects ev d (listeners s ev)) s"
  by (simp add: emit_closed)

lemma getConfig_record_effect [simp]: "getConfig (record_effect es s) n = getConfig s n"
  by (simp add: getConfig_def)

lemma isEnabled_record_effect [simp]: "isEnabled (record_effect es s) n = isEnabled s n"
  by (simp add: isEnabled_def)

lemma dispatch_step:
  "dispatch ev cx (plugin # rest) results s =
     (if isEnabled s (name plugin)
      then dispatch ev cx rest (results(name plugin \<mapsto> turnResult ev cx plugin s))
             (afterTurn ev cx plugin s)
      else dispatch ev cx rest results s)"
  by (cases "fst (handler plugin (turnContext ev cx plugin s))")
     (simp_all add: dispatch.simps(2) emit_closed isEnabled_def turnResult_def afterTurn_def turnContext_def
        failureResult_def Let_def)

declare dispatch.simps(2) [simp del]

lemma dispatch_state: "snd (dispatch ev cx ps r s) = stateAfter ev cx ps s"
  unfolding stateAfter_def
proof (induction ps arbitrary: r s)
  case Nil
  show ?case by simp
next
  case (Cons p ps)
  show ?case
  proof (cases "isEnabled s (name p)")
    case True
    have "snd (dispatch ev cx (p # ps) r s)
            = snd (dispatch ev cx ps (r(name p \<mapsto> turnResult ev cx p s)) (afterTurn ev cx p s))"
      by (simp add: dispatch_step True)
    also have "\<dots> = snd (dispatch ev cx ps Map.empty (afterTurn ev cx p s))"
      by (rule Cons.IH)
    also have "\<dots> = snd (dispatch ev cx ps (Map.empty(name p \<mapsto> turnResult ev cx p s))
                          (afterTurn ev cx p s))"
      by (rule Cons.IH[symmetric])
    also have "\<dots> = snd (dispatch ev cx (p # ps) Map.empty s)"
      by (simp add: dispatch_step True)
    finally show ?thesis .
  next
    case False
    then show ?thesis using Cons.IH[of r s] by (simp add: dispatch_step)
  qed
qed

lemma stateAfter_Nil [simp]: "stateAfter ev cx [] s = s"
  by (simp add: stateAfter_def)

lemma stateAfter_Cons:
  "stateAfter ev cx (p # ps) s =
      (if isEnabled s (name p) then stateAfter ev cx ps (afterTurn ev cx p s)
       else stateAfter ev cx ps s)"
proof (cases "isEnabled s (name p)")
  case True
  have "stateAfter ev cx (p # ps) s
          = snd (dispatch ev cx ps (Map.empty(name p \<mapsto> turnResult ev cx p s)) (afterTurn ev cx p s))"
    by (simp add: stateAfter_def dispatch_step True)
  also have "\<dots> = stateAfter ev cx ps (afterTurn ev cx p s)"
    by (rule dispatch_state)
  finally show ?thesis using True by simp
next
  case False
  then show ?thesis by (simp add: stateAfter_def dispatch_step)
qed

lemma dispatch_returns: "\<exists>r'. dispatch ev cx ps r s = (Inr r', stateAfter ev cx ps s)"
proof (induction ps arbitrary: r s)
  case Nil
  show ?case by simp
next
  case (Cons p ps)
  show ?case
  proof (cases "isEnabled s (name p)")
    case True
    from Cons.IH[of "r(name p \<mapsto> turnResult ev cx p s)" "afterTurn ev cx p s"]
    obtain r' where "dispatch ev cx ps (r(name p \<mapsto> turnResult ev cx p s)) (afterTurn ev cx p s)
                       = (Inr r', stateAfter ev cx ps (afterTurn ev cx p s))" by blast
    then have "dispatch ev cx (p # ps) r s = (Inr r', stateAfter ev cx (p # ps) s)"
      by (simp add: dispatch_step stateAfter_Cons True)
    then show ?thesis by blast
  next
    case False
    from Cons.IH[of r s] obtain r' where "dispatch ev cx ps r s = (Inr r', stateAfter ev cx ps s)"
      by blast
    then have "dispatch ev cx (p # ps) r s = (Inr r', stateAfter ev cx (p # ps) s)"
      by (simp add: dispatch_step stateAfter_Cons False)
    then show ?thesis by blast
  qed
qed

lemma stateAfter_append:
  "stateAfter ev cx (xs @ ys) s = stateAfter ev cx ys (stateAfter ev cx xs s)"
  by (induction xs arbitrary: s) (simp_all add: stateAfter_Cons)

lemma dispatch_append:
  assumes "dispatch ev cx xs r s = (Inr r1, s1)"
  shows "dispatch ev cx (xs @ ys) r s = dispatch ev cx ys r1 s1"
  using assms
proof (induction xs arbitrary: r s)
  case Nil
  then show ?case by simp
next
  case (Cons p xs)
  then show ?case by (simp add: dispatch_step split: if_splits)
qed

lemma dispatch_keeps_result:
  assumes "dispatch ev cx ps r s = (Inr r', s')" and "n \<notin> name ` set ps"
  shows "r' n = r n"
  using assms
proof (induction ps arbitrary: r s)
  case Nil
  then show ?case by simp
next
  case (Cons p ps)
  then show ?case by (auto simp: dispatch_step split: if_splits)
qed


lemma invoked_simps [simp]:
  "invoked [] = []"
  "invoked (e # es) = handlerName e @ invoked es"
  "invoked (es @ fs) = invoked es @ invoked fs"
  by (simp_all add: invoked_def)

lemma listenerEffects_silent [simp]:
  "invoked (listenerEffects ev d hs) = []"
  "filter (isErrorEventFor m) (listenerEffects ev d hs) = []"
  by (induction hs) (auto simp: listenerEffects_def split: option.splits)

lemma emit_trace:
  "trace (snd (emit s ev d)) = trace s @ Emitted ev d # listenerEffects ev d (listeners s ev)"
  by (simp add: emit_closed)

lemma emit_fields [simp]:
  "plugins (snd (emit s ev d)) = plugins s"
  "enabledPlugins (snd (emit s ev d)) = enabledPlugins s"
  "pluginConfigs (snd (emit s ev d)) = pluginConfigs s"
  "listeners (snd (emit s ev d)) = listeners s"
  by (simp_all add: emit_closed)

lemma register_silent:
  "\<exists>es. trace (snd (register s p)) = trace s @ es \<and> invoked es = []
        \<and> (\<forall>m. filter (isErrorEventFor m) es = [])"
  by (simp add: register_def emit_trace Let_def split: option.splits)

lemma unregister_silent:
  "\<exists>es. trace (snd (unregister s n)) = trace s @ es \<and> invoked es = []
        \<and> (\<forall>m. filter (isErrorEventFor m) es = [])"
  by (auto simp: unregister_def callCleanup_def emit_trace deletePlugin_def Let_def
      split: option.splits cleanup_run.splits)

lemma enable_silent:
  "\<exists>es. trace (snd (enable s n)) = trace s @ es \<and> invoked es = []
        \<and> (\<forall>m. filter (isErrorEventFor m) es = [])"
  by (simp add: enable_def emit_trace)

lemma disable_silent:
  "\<exists>es. trace (snd (disable s n)) = trace s @ es \<and> invoked es = []
        \<and> (\<forall>m. filter (isErrorEventFor m) es = [])"
  by (simp add: disable_def emit_trace)

lemma setConfig_silent:
  "\<exists>es. trace (snd (setConfig s n c)) = trace s @ es \<and> invoked es = []
        \<and> (\<forall>m. filter (isErrorEventFor m) es = [])"
  by (simp add: setConfig_def emit_trace Let_def)

lemma perform_silent:
  "\<exists>es. trace (perform n s a) = trace s @ es \<and> invoked es = []
        \<and> (\<forall>m. filter (isErrorEventFor m) es = [])"
  by (cases a) (simp_all add: register_silent unregister_silent enable_silent disable_silent
      setConfig_silent emit_trace)

lemma perform_all_silent:
  "\<exists>es. trace (foldl (perform n) s as) = trace s @ es \<and> invoked es = []
        \<and> (\<forall>m. filter (isErrorEventFor m) es = [])"
proof (induction as arbitrary: s)
  case Nil
  show ?case by simp
next
  case (Cons a as)
  from perform_silent[of n s a] obtain es1 where 1: "trace (perform n s a) = trace s @ es1"
    "invoked es1 = []" "\<forall>m. filter (isErrorEventFor m) es1 = []" by blast
  from Cons.IH[of "perform n s a"] obtain es2 where
    2: "trace (foldl (perform n) (perform n s a) as) = trace (perform n s a) @ es2"
    "invoked es2 = []" "\<forall>m. filter (isErrorEventFor m) es2 = []" by blast
  from 1 2 have "trace (foldl (perform n) s (a # as)) = trace s @ (es1 @ es2)
      \<and> invoked (es1 @ es2) = [] \<and> (\<forall>m. filter (isErrorEventFor m) (es1 @ es2) = [])"
    by simp
  then show ?case by blast
qed

lemma afterTurn_trace:
  "\<exists>es. trace (afterTurn ev cx p s) = trace s @ es \<and> invoked es = [name p]
     \<and> (\<forall>m. filter (isErrorEventFor m) es =
           (case fst (handler p (turnContext ev cx p s)) of
              Inl e \<Rightarrow> if m = name p then [Emitted PluginError (ErrorData (name p) e)] else []
            | Inr r \<Rightarrow> []))"
proof -
  define ctx where "ctx = turnContext ev cx p s"
  define s1 where "s1 = record_effect [HandlerCalled (name p) ctx]
      (snd (emit s PluginStarted (StartedData (name p) ev)))"
  from perform_all_silent[of "name p" s1 "snd (handler p ctx)"] obtain es where
    es: "trace (foldl (perform (name p)) s1 (snd (handler p ctx))) = trace s1 @ es"
    "invoked es = []" "\<forall>m. filter (isErrorEventFor m) es = []" by blast
  have t1: "trace s1 = trace s @ Emitted PluginStarted (StartedData (name p) ev)
      # listenerEffects PluginStarted (StartedData (name p) ev) (listeners s PluginStarted)
      @ [HandlerCalled (name p) ctx]"
    by (simp add: s1_def emit_trace)
  show ?thesis
  proof (cases "fst (handler p ctx)")
    case (Inl e)
    have "trace (afterTurn ev cx p s) = trace s @
        (Emitted PluginStarted (StartedData (name p) ev)
         # listenerEffects PluginStarted (StartedData (name p) ev) (listeners s PluginStarted)
         @ [HandlerCalled (name p) ctx] @ es
         @ Emitted PluginError (ErrorData (name p) e)
         # listenerEffects PluginError (ErrorData (name p) e)
             (listeners (foldl (perform (name p)) s1 (snd (handler p ctx))) PluginError))"
      using Inl es(1) t1
      by (simp add: afterTurn_def Let_def ctx_def[symmetric] s1_def[symmetric] emit_trace)
    moreover have "invoked (Emitted PluginStarted (StartedData (name p) ev)
         # listenerEffects PluginStarted (StartedData (name p) ev) (listeners s PluginStarted)
         @ [HandlerCalled (name p) ctx] @ es
         @ Emitted PluginError (ErrorData (name p) e)
         # listenerEffects PluginError (ErrorData (name p) e)
             (listeners (foldl (perform (name p)) s1 (snd (handler p ctx))) PluginError)) = [name p]"
      using es(2) by simp
    moreover have "\<forall>m. filter (isErrorEventFor m) (Emitted PluginStarted (StartedData (name p) ev)
         # listenerEffects PluginStarted (StartedData (name p) ev) (listeners s PluginStarted)
         @ [HandlerCalled (name p) ctx] @ es
         @ Emitted PluginError (ErrorData (name p) e)
         # listenerEffects PluginError (ErrorData (name p) e)
             (listeners (foldl (perform (name p)) s1 (snd (handler p ctx))) PluginError))
        = (if m = name p then [Emitted PluginError (ErrorData (name p) e)] else [])"
      using es(3) by auto
    ultimately show ?thesis using Inl by (simp add: ctx_def[symmetric])
  next
    case (Inr r)
    have "trace (afterTurn ev cx p s) = trace s @
        (Emitted PluginStarted (StartedData (name p) ev)
         # listenerEffects PluginStarted (StartedData (name p) ev) (listeners s PluginStarted)
         @ [HandlerCalled (name p) ctx] @ es
         @ Emitted PluginCompleted (CompletedData (name p) r)
         # listenerEffects PluginCompleted (CompletedData (name p) r)
             (listeners (foldl (perform (name p)) s1 (snd (handler p ctx))) PluginCompleted))"
      using Inr es(1) t1
      by (simp add: afterTurn_def Let_def ctx_def[symmetric] s1_def[symmetric] emit_trace)
    moreover have "invoked (Emitted PluginStarted (StartedData (name p) ev)
         # listenerEffects PluginStarted (StartedData (name p) ev) (listeners s PluginStarted)
         @ [HandlerCalled (name p) ctx] @ es
         @ Emitted PluginCompleted (CompletedData (name p) r)
         # listenerEffects PluginCompleted (CompletedData (name p) r)
             (listeners (foldl (perform (name p)) s1 (snd (handler p ctx))) PluginCompleted)) = [name p]"
      using es(2) by simp
    moreover have "\<forall>m. filter (isErrorEventFor m) (Emitted PluginStarted (StartedData (name p) ev)
         # listenerEffects PluginStarted (StartedData (name p) ev) (listeners s PluginStarted)
         @ [HandlerCalled (name p) ctx] @ es
         @ Emitted PluginCompleted (CompletedData (name p) r)
         # listenerEffects PluginCompleted (CompletedData (name p) r)
             (listeners (foldl (perform (name p)) s1 (snd (handler p ctx))) PluginCompleted))
        = []"
      using es(3) by auto
    ultimately show ?thesis using Inr by (simp add: ctx_def[symmetric])
  qed
qed


lemma stateAfter_errors:
  "n \<notin> name ` set ps \<Longrightarrow>
     filter (isErrorEventFor n) (trace (stateAfter ev cx ps s)) = filter (isErrorEventFor n) (trace s)"
proof (induction ps arbitrary: s)
  case Nil
  show ?case by simp
next
  case (Cons p ps)
  from Cons.prems have np: "n \<noteq> name p" and nps: "n \<notin> name ` set ps" by auto
  show ?case
  proof (cases "isEnabled s (name p)")
    case True
    from afterTurn_trace[of ev cx p s] obtain es where
      es: "trace (afterTurn ev cx p s) = trace s @ es"
      "\<forall>m. filter (isErrorEventFor m) es =
           (case fst (handler p (turnContext ev cx p s)) of
              Inl e \<Rightarrow> if m = name p then [Emitted PluginError (ErrorData (name p) e)] else []
            | Inr r \<Rightarrow> [])" by blast
    from es(2) np have "filter (isErrorEventFor n) es = []"
      by (auto split: sum.splits)
    with es(1) Cons.IH[OF nps, of "afterTurn ev cx p s"] True show ?thesis
      by (simp add: stateAfter_Cons)
  next
    case False
    with Cons.IH[OF nps, of s] show ?thesis by (simp add: stateAfter_Cons)
  qed
qed

lemma stateAfter_trace:
  "distinct (map name ps) \<Longrightarrow>
     \<exists>new. trace (stateAfter ev cx ps s) = trace s @ new
       \<and> subseq (invoked new) (map name ps)
       \<and> (\<forall>xs q ys. ps = xs @ q # ys \<longrightarrow>
             (name q \<in> set (invoked new) \<longleftrightarrow> isEnabled (stateAfter ev cx xs s) (name q)))"
proof (induction ps arbitrary: s)
  case Nil
  show ?case by simp
next
  case (Cons p ps)
  from Cons.prems have dps: "distinct (map name ps)" and pn: "name p \<notin> name ` set ps" by auto
  show ?case
  proof (cases "isEnabled s (name p)")
    case True
    from afterTurn_trace[of ev cx p s] obtain es where
      es: "trace (afterTurn ev cx p s) = trace s @ es" "invoked es = [name p]" by blast
    from Cons.IH[OF dps, of "afterTurn ev cx p s"] obtain new where
      new: "trace (stateAfter ev cx ps (afterTurn ev cx p s)) = trace (afterTurn ev cx p s) @ new"
      "subseq (invoked new) (map name ps)"
      "\<forall>xs q ys. ps = xs @ q # ys \<longrightarrow>
             (name q \<in> set (invoked new) \<longleftrightarrow> isEnabled (stateAfter ev cx xs (afterTurn ev cx p s)) (name q))"
      by blast
    have 1: "trace (stateAfter ev cx (p # ps) s) = trace s @ (es @ new)"
      using True es(1) new(1) by (simp add: stateAfter_Cons)
    have 2: "subseq (invoked (es @ new)) (map name (p # ps))"
      using es(2) new(2) by simp
    have 3: "name q \<in> set (invoked (es @ new)) \<longleftrightarrow> isEnabled (stateAfter ev cx xs s) (name q)"
      if split: "p # ps = xs @ q # ys" for xs q ys
    proof (cases xs)
      case Nil
      with split have "q = p" by simp
      with Nil True es(2) show ?thesis by simp
    next
      case (Cons x xs')
      with split have x: "x = p" and ps: "ps = xs' @ q # ys" by auto
      from ps pn have "name q \<noteq> name p" by auto
      with new(3) ps es(2) Cons x True show ?thesis
        by (simp add: stateAfter_Cons)
    qed
    from 1 2 3 show ?thesis by blast
  next
    case False
    from Cons.IH[OF dps, of s] obtain new where
      new: "trace (stateAfter ev cx ps s) = trace s @ new"
      "subseq (invoked new) (map name ps)"
      "\<forall>xs q ys. ps = xs @ q # ys \<longrightarrow>
             (name q \<in> set (invoked new) \<longleftrightarrow> isEnabled (stateAfter ev cx xs s) (name q))"
      by blast
    have 1: "trace (stateAfter ev cx (p # ps) s) = trace s @ new"
      using False new(1) by (simp add: stateAfter_Cons)
    have 2: "subseq (invoked new) (map name (p # ps))"
      using new(2) by (simp add: list_emb_Cons)
    have 3: "name q \<in> set (invoked new) \<longleftrightarrow> isEnabled (stateAfter ev cx xs s) (name q)"
      if split: "p # ps = xs @ q # ys" for xs q ys
    proof (cases xs)
      case Nil
      with split have q: "q = p" by simp
      from new(2) have "set (invoked new) \<subseteq> set (map name ps)"
        by (auto elim: list_emb_set)
      with pn have "name p \<notin> set (invoked new)" by auto
      with Nil q False show ?thesis by simp
    next
      case (Cons x xs')
      with split have x: "x = p" and ps: "ps = xs' @ q # ys" by auto
      with new(3) Cons False show ?thesis
        by (simp add: stateAfter_Cons)
    qed
    from 1 2 3 show ?thesis by blast
  qed
qed

subsection \<open>Fault isolation\<close>

text \<open>
  Claim C2. Let the registry be well formed (distinct keys, each plugin stored under its
  own name, as \<open>register\<close> keeps it) and let dependency resolution return the run list
  \<open>before @ plugin # after\<close>. If \<open>plugin\<close> is enabled when its turn comes and its handler
  throws or rejects with \<open>Error(X)\<close>, then \<open>runEvent\<close> returns a result map, no
  exception reaches its caller; the map holds \<open>{success: false, error: X}\<close> for the
  plugin; among the effects of the dispatch there is exactly one \<open>plugin:error\<close>
  event for the plugin, carrying that error; and every later plugin of the run list
  that is enabled when its turn comes has its handler invoked.
\<close>

theorem runEvent_fault_isolation:
  assumes wf: "wellFormed s"
    and run: "getPluginsForEvent frames s ev = Some (before @ plugin # after)"
    and en: "isEnabled (stateAfter ev cx before s) (name plugin)"
    and throws: "fst (handler plugin (turnContext ev cx plugin (stateAfter ev cx before s)))
                   = Inl (ErrorObj X)"
  shows "\<exists>results s' new.
       runEvent frames s ev cx = (Inr results, s')
     \<and> results (name plugin) = Some \<lparr>success = False, data = None, error = Some X\<rparr>
     \<and> trace s' = trace s @ new
     \<and> filter (isErrorEventFor (name plugin)) new
          = [Emitted PluginError (ErrorData (name plugin) (ErrorObj X))]
     \<and> (\<forall>mid q rest. after = mid @ q # rest
            \<and> isEnabled (stateAfter ev cx (before @ plugin # mid) s) (name q)
          \<longrightarrow> name q \<in> set (invoked new))"
proof -
  define ps where "ps = before @ plugin # after"
  define s0 where "s0 = stateAfter ev cx before s"
  define n where "n = name plugin"
  have dist: "distinct (map name ps)"
    using getPluginsForEvent_distinct[OF wf run] by (simp add: ps_def)
  then have nb: "n \<notin> name ` set before" and na: "n \<notin> name ` set after"
    by (auto simp: ps_def n_def)
  obtain r' where r': "dispatch ev cx ps Map.empty s = (Inr r', stateAfter ev cx ps s)"
    using dispatch_returns by blast
  have runEv: "runEvent frames s ev cx = (Inr r', stateAfter ev cx ps s)"
    using run r' by (simp add: runEvent_def ps_def)
  obtain r0 where r0: "dispatch ev cx before Map.empty s = (Inr r0, s0)"
    using dispatch_returns[of ev cx before Map.empty s] by (auto simp: s0_def)
  have "dispatch ev cx ps Map.empty s = dispatch ev cx (plugin # after) r0 s0"
    unfolding ps_def by (rule dispatch_append[OF r0])
  also have "\<dots> = dispatch ev cx after (r0(n \<mapsto> turnResult ev cx plugin s0)) (afterTurn ev cx plugin s0)"
    using en by (simp add: dispatch_step s0_def n_def)
  finally have "dispatch ev cx after (r0(n \<mapsto> turnResult ev cx plugin s0)) (afterTurn ev cx plugin s0)
                  = (Inr r', stateAfter ev cx ps s)"
    using r' by simp
  from dispatch_keeps_result[OF this na]
  have "r' n = Some (turnResult ev cx plugin s0)" by simp
  also have "turnResult ev cx plugin s0 = \<lparr>success = False, data = None, error = Some X\<rparr>"
    using throws by (simp add: turnResult_def s0_def failureResult_def)
  finally have res: "r' n = Some \<lparr>success = False, data = None, error = Some X\<rparr>" .
  from stateAfter_trace[OF dist, of ev cx s] obtain new where
    new: "trace (stateAfter ev cx ps s) = trace s @ new"
    and inv: "\<forall>xs q ys. ps = xs @ q # ys \<longrightarrow>
             (name q \<in> set (invoked new) \<longleftrightarrow> isEnabled (stateAfter ev cx xs s) (name q))"
    by blast
  from afterTurn_trace[of ev cx plugin s0] throws obtain es where
    es: "trace (afterTurn ev cx plugin s0) = trace s0 @ es"
    and ees: "filter (isErrorEventFor n) es = [Emitted PluginError (ErrorData n (ErrorObj X))]"
    by (auto simp: s0_def n_def)
  have "stateAfter ev cx ps s = stateAfter ev cx after (afterTurn ev cx plugin s0)"
    using en by (simp add: ps_def stateAfter_append stateAfter_Cons s0_def)
  then have "filter (isErrorEventFor n) (trace (stateAfter ev cx ps s))
               = filter (isErrorEventFor n) (trace (afterTurn ev cx plugin s0))"
    using stateAfter_errors[OF na] by simp
  also have "\<dots> = filter (isErrorEventFor n) (trace s0) @ [Emitted PluginError (ErrorData n (ErrorObj X))]"
    using es ees by simp
  also have "filter (isErrorEventFor n) (trace s0) = filter (isErrorEventFor n) (trace s)"
    unfolding s0_def by (rule stateAfter_errors[OF nb])
  finally have "filter (isErrorEventFor n) new = [Emitted PluginError (ErrorData n (ErrorObj X))]"
    using new by simp
  moreover have "name q \<in> set (invoked new)"
    if "after = mid @ q # rest \<and> isEnabled (stateAfter ev cx (before @ plugin # mid) s) (name q)"
    for mid q rest
  proof -
    from that have "ps = (before @ plugin # mid) @ q # rest" by (simp add: ps_def)
    with inv that show ?thesis by blast
  qed
  ultimately show ?thesis
    using runEv res new unfolding n_def by blast
qed

lemma failingManager_eq:
  "failingManager =
     \<lparr>plugins = [(''A'', readyPlugin ''A'' (throwingHandler ''X'') None None),
                 (''B'', readyPlugin ''B'' idleHandler None None)],
      enabledPlugins = [''A'', ''B''], pluginConfigs = Map.empty, listeners = (\<lambda>_. []),
      trace = [Emitted PluginRegistered (NameData ''A''), Emitted PluginRegistered (NameData ''B'')]\<rparr>"
  by (simp add: failingManager_def registerAll_def register_def getPlugin_def
      readyPlugin_def newManager_def emit_closed record_effect_def Let_def setAdd_def
      listenerEffects_def)

lemma failingManager_run:
  "getPluginsForEvent 3 failingManager Ready
     = Some ([] @ readyPlugin ''A'' (throwingHandler ''X'') None None
               # [readyPlugin ''B'' idleHandler None None])"
  by (simp add: getPluginsForEvent_def failingManager_eq numeral_3_eq_3 getPlugin_def
        readyPlugin_def dependencyList_def setAdd_def)

theorem runEvent_fault_isolation_witness:
  "wellFormed failingManager
   \<and> isEnabled (stateAfter Ready (Snapshot ''doc'') [] failingManager) ''A''
   \<and> (\<exists>results s' new.
         runEvent 3 failingManager Ready (Snapshot ''doc'') = (Inr results, s')
       \<and> results ''A'' = Some \<lparr>success = False, data = None, error = Some ''X''\<rparr>
       \<and> trace s' = trace failingManager @ new
       \<and> filter (isErrorEventFor ''A'') new = [Emitted PluginError (ErrorData ''A'' (ErrorObj ''X''))]
       \<and> ''B'' \<in> set (invoked new))"
proof -
  let ?A = "readyPlugin ''A'' (throwingHandler ''X'') None None"
  let ?B = "readyPlugin ''B'' idleHandler None None"
  let ?cx = "Snapshot ''doc''"
  have wf: "wellFormed failingManager"
    by (simp add: wellFormed_def failingManager_eq readyPlugin_def)
  have en: "isEnabled (stateAfter Ready ?cx [] failingManager) (name ?A)"
    by (simp add: isEnabled_def failingManager_eq readyPlugin_def)
  have throws: "fst (handler ?A (turnContext Ready ?cx ?A (stateAfter Ready ?cx [] failingManager)))
                   = Inl (ErrorObj ''X'')"
    by (simp add: readyPlugin_def throwingHandler_def)
  have enB: "isEnabled (stateAfter Ready ?cx ([] @ ?A # []) failingManager) (name ?B)"
    by (simp add: stateAfter_Cons isEnabled_def afterTurn_def failingManager_eq readyPlugin_def
        throwingHandler_def emit_closed turnContext_def Let_def)
  from runEvent_fault_isolation[OF wf failingManager_run en throws]
  obtain results s' new where
    r: "runEvent 3 failingManager Ready ?cx = (Inr results, s')"
       "results (name ?A) = Some \<lparr>success = False, data = None, error = Some ''X''\<rparr>"
       "trace s' = trace failingManager @ new"
       "filter (isErrorEventFor (name ?A)) new
          = [Emitted PluginError (ErrorData (name ?A) (ErrorObj ''X''))]"
       "\<forall>mid q rest. [?B] = mid @ q # rest
            \<and> isEnabled (stateAfter Ready ?cx ([] @ ?A # mid) failingManager) (name q)
          \<longrightarrow> name q \<in> set (invoked new)"
    by blast
  from r(5) enB have "name ?B \<in> set (invoked new)" by blast
  with r(1-4) wf en show ?thesis by (simp add: readyPlugin_def)
qed

subsection \<open>What a dispatch in progress does and does not see\<close>

text \<open>
  Every plugin of the run list is registered at the start of the dispatch, and a call
  of \<open>register\<close> changes neither the enabled flag nor the configuration of a plugin
  that is registered already.
\<close>

lemma wellFormed_getPlugin: "wellFormed s \<Longrightarrow> (n, p) \<in> set (plugins s) \<Longrightarrow> getPlugin s n = Some p"
  by (simp add: wellFormed_def getPlugin_def)

lemma forEachName_registered:
  assumes step: "\<And>n st st'. f n st = Some st' \<Longrightarrow>
       (\<forall>q\<in>set (fst st). getPlugin s (name q) = Some q) \<Longrightarrow>
       (\<forall>q\<in>set (fst st'). getPlugin s (name q) = Some q)"
  shows "forEachName f ns st = Some st' \<Longrightarrow>
       (\<forall>q\<in>set (fst st). getPlugin s (name q) = Some q) \<Longrightarrow>
       (\<forall>q\<in>set (fst st'). getPlugin s (name q) = Some q)"
proof (induction ns arbitrary: st)
  case Nil
  then show ?case by simp
next
  case (Cons n ns)
  from Cons.prems(1) obtain st1 where 1: "f n st = Some st1"
    and 2: "forEachName f ns st1 = Some st'"
    by (auto split: option.splits)
  from Cons.IH[OF 2 step[OF 1 Cons.prems(2)]] show ?case .
qed

lemma resolve_registered:
  assumes wf: "wellFormed s"
  shows "resolve s ev k n st = Some st' \<Longrightarrow>
       (\<forall>q\<in>set (fst st). getPlugin s (name q) = Some q) \<Longrightarrow>
       (\<forall>q\<in>set (fst st'). getPlugin s (name q) = Some q)"
proof (induction k arbitrary: n st st')
  case 0
  then show ?case by simp
next
  case (Suc k)
  obtain run res where st: "st = (run, res)" by (cases st)
  show ?case
  proof (cases "n \<in> set res \<or> getPlugin s n = None")
    case True
    with Suc.prems(1) st have "st' = st" by (auto split: if_splits)
    with Suc.prems(2) show ?thesis by simp
  next
    case False
    then have nres: "n \<notin> set res" and "getPlugin s n \<noteq> None" by auto
    then obtain p where p: "getPlugin s n = Some p" by auto
    from Suc.prems(1) st nres p obtain run1 res1 where
      loop: "forEachName (\<lambda>dep st. resolve s ev k dep st) (dependencyList p) (run, res) = Some (run1, res1)"
      and st': "st' = (if ev \<in> set (runsOn p) then run1 @ [p] else run1, setAdd n res1)"
      by (auto split: option.splits)
    have inv1: "\<forall>q\<in>set (fst (run1, res1)). getPlugin s (name q) = Some q"
      using forEachName_registered[of "resolve s ev k" s "dependencyList p" "(run, res)" "(run1, res1)"]
        Suc.IH loop Suc.prems(2) st by blast
    from wellFormed_name[OF wf p] p have "getPlugin s (name p) = Some p" by simp
    with inv1 show ?thesis by (auto simp: st')
  qed
qed

lemma getPluginsForEvent_registered:
  assumes "wellFormed s" and "getPluginsForEvent frames s ev = Some ps"
  shows "\<forall>q\<in>set ps. getPlugin s (name q) = Some q"
proof -
  from assms(2) obtain st' where
    loop: "forEachName (\<lambda>n st. resolve s ev frames n st) (map fst (plugins s)) ([], []) = Some st'"
    and ps: "ps = fst st'"
    by (auto simp: getPluginsForEvent_def)
  have "\<forall>q\<in>set (fst st'). getPlugin s (name q) = Some q"
    using forEachName_registered[of "resolve s ev frames" s "map fst (plugins s)" "([], [])" st']
      resolve_registered[OF assms(1)] loop by auto
  with ps show ?thesis by simp
qed

lemma register_keeps:
  assumes "getPlugin s m \<noteq> None"
  shows "getPlugin (snd (register s p)) m = getPlugin s m
       \<and> isEnabled (snd (register s p)) m = isEnabled s m
       \<and> getConfig (snd (register s p)) m = getConfig s m"
proof (cases "getPlugin s (name p) = None")
  case False
  then show ?thesis by (simp add: register_def)
next
  case True
  with assms have ne: "m \<noteq> name p" by auto
  from assms have "map_of (plugins s @ [(name p, p)]) m = map_of (plugins s) m"
    by (auto simp: getPlugin_def map_add_def split: option.splits)
  with True ne show ?thesis
    by (simp add: register_def getPlugin_def isEnabled_def getConfig_def Let_def setAdd_def
        split: option.splits)
qed

lemma perform_registers_keep:
  assumes "\<forall>a\<in>set as. \<exists>p. a = Register p" and "getPlugin s m \<noteq> None"
  shows "getPlugin (foldl (perform n) s as) m = getPlugin s m
       \<and> isEnabled (foldl (perform n) s as) m = isEnabled s m
       \<and> getConfig (foldl (perform n) s as) m = getConfig s m"
  using assms
proof (induction as arbitrary: s)
  case Nil
  show ?case by simp
next
  case (Cons a as)
  from Cons.prems(1) obtain p where a: "a = Register p" by auto
  from register_keeps[OF Cons.prems(2), of p]
  have 1: "getPlugin (perform n s a) m = getPlugin s m"
    "isEnabled (perform n s a) m = isEnabled s m"
    "getConfig (perform n s a) m = getConfig s m"
    by (simp_all add: a)
  with Cons.prems(2) have "getPlugin (perform n s a) m \<noteq> None" by simp
  from Cons.IH[OF _ this] Cons.prems(1) 1 show ?case by simp
qed

lemma getPlugin_record_effect [simp]: "getPlugin (record_effect es s) n = getPlugin s n"
  by (simp add: getPlugin_def)

lemma emit_keeps [simp]:
  "getPlugin (snd (emit s ev d)) n = getPlugin s n"
  "isEnabled (snd (emit s ev d)) n = isEnabled s n"
  "getConfig (snd (emit s ev d)) n = getConfig s n"
  by (simp_all add: emit_closed)

lemma afterTurn_registers_keep:
  assumes "\<forall>a\<in>set (snd (handler p (turnContext ev cx p s))). \<exists>r. a = Register r"
    and "getPlugin s m \<noteq> None"
  shows "getPlugin (afterTurn ev cx p s) m = getPlugin s m
       \<and> isEnabled (afterTurn ev cx p s) m = isEnabled s m
       \<and> getConfig (afterTurn ev cx p s) m = getConfig s m"
proof -
  define s1 where "s1 = record_effect [HandlerCalled (name p) (turnContext ev cx p s)]
      (snd (emit s PluginStarted (StartedData (name p) ev)))"
  have "getPlugin s1 m \<noteq> None" using assms(2) by (simp add: s1_def)
  from perform_registers_keep[OF assms(1) this, of "name p"]
  have "getPlugin (foldl (perform (name p)) s1 (snd (handler p (turnContext ev cx p s)))) m = getPlugin s m
       \<and> isEnabled (foldl (perform (name p)) s1 (snd (handler p (turnContext ev cx p s)))) m = isEnabled s m
       \<and> getConfig (foldl (perform (name p)) s1 (snd (handler p (turnContext ev cx p s)))) m = getConfig s m"
    by (simp add: s1_def)
  then show ?thesis
    by (simp add: afterTurn_def Let_def s1_def[symmetric] split: sum.splits)
qed

lemma stateAfter_registers_keep:
  assumes "\<forall>q\<in>set xs. \<forall>c. \<forall>a\<in>set (snd (handler q c)). \<exists>r. a = Register r"
    and "getPlugin s m \<noteq> None"
  shows "getPlugin (stateAfter ev cx xs s) m = getPlugin s m
       \<and> isEnabled (stateAfter ev cx xs s) m = isEnabled s m
       \<and> getConfig (stateAfter ev cx xs s) m = getConfig s m"
  using assms
proof (induction xs arbitrary: s)
  case Nil
  show ?case by simp
next
  case (Cons p xs)
  show ?case
  proof (cases "isEnabled s (name p)")
    case True
    from Cons.prems(1) have "\<forall>a\<in>set (snd (handler p (turnContext ev cx p s))). \<exists>r. a = Register r"
      by simp
    from afterTurn_registers_keep[OF this Cons.prems(2)]
    have 1: "getPlugin (afterTurn ev cx p s) m = getPlugin s m"
      "isEnabled (afterTurn ev cx p s) m = isEnabled s m"
      "getConfig (afterTurn ev cx p s) m = getConfig s m" by simp_all
    with Cons.prems(2) have "getPlugin (afterTurn ev cx p s) m \<noteq> None" by simp
    from Cons.IH[OF _ this] Cons.prems(1) 1 True show ?thesis
      by (simp add: stateAfter_Cons)
  next
    case False
    from Cons.IH[OF _ Cons.prems(2)] Cons.prems(1) False show ?thesis
      by (simp add: stateAfter_Cons)
  qed
qed

subsection \<open>Registry calls during a dispatch\<close>

lemma dispatch_result_at:
  assumes dist: "distinct (map name (xs @ q # ys))"
    and d: "dispatch ev cx (xs @ q # ys) Map.empty s = (Inr r', s')"
  shows "r' (name q) = (if isEnabled (stateAfter ev cx xs s) (name q)
                        then Some (turnResult ev cx q (stateAfter ev cx xs s)) else None)"
proof -
  from dist have nx: "name q \<notin> name ` set xs" and ny: "name q \<notin> name ` set ys" by auto
  obtain r0 where r0: "dispatch ev cx xs Map.empty s = (Inr r0, stateAfter ev cx xs s)"
    using dispatch_returns by blast
  from dispatch_keeps_result[OF r0 nx] have r0q: "r0 (name q) = None" by simp
  from dispatch_append[OF r0, of "q # ys"] d
  have step: "dispatch ev cx (q # ys) r0 (stateAfter ev cx xs s) = (Inr r', s')" by simp
  show ?thesis
  proof (cases "isEnabled (stateAfter ev cx xs s) (name q)")
    case True
    with step have "dispatch ev cx ys (r0(name q \<mapsto> turnResult ev cx q (stateAfter ev cx xs s)))
        (afterTurn ev cx q (stateAfter ev cx xs s)) = (Inr r', s')"
      by (simp add: dispatch_step)
    from dispatch_keeps_result[OF this ny] True show ?thesis by simp
  next
    case False
    with step have "dispatch ev cx ys r0 (stateAfter ev cx xs s) = (Inr r', s')"
      by (simp add: dispatch_step)
    from dispatch_keeps_result[OF this ny] False r0q show ?thesis by simp
  qed
qed


lemma disablingManager_eq:
  "disablingManager =
     \<lparr>plugins = [(''A'', readyPlugin ''A'' (disablingHandler ''B'') None None),
                 (''B'', readyPlugin ''B'' idleHandler None None)],
      enabledPlugins = [''A'', ''B''], pluginConfigs = Map.empty, listeners = (\<lambda>_. []),
      trace = [Emitted PluginRegistered (NameData ''A''), Emitted PluginRegistered (NameData ''B'')]\<rparr>"
  by (simp add: disablingManager_def registerAll_def register_def getPlugin_def
      readyPlugin_def newManager_def emit_closed record_effect_def Let_def setAdd_def
      listenerEffects_def)

lemma disablingManager_run:
  "getPluginsForEvent 3 disablingManager Ready
     = Some [readyPlugin ''A'' (disablingHandler ''B'') None None,
             readyPlugin ''B'' idleHandler None None]"
  by (simp add: getPluginsForEvent_def disablingManager_eq numeral_3_eq_3 getPlugin_def
        readyPlugin_def dependencyList_def setAdd_def)

text \<open>
  Claim C8 as stated fails. In \<open>disablingManager\<close> the plugins \<open>A\<close> and \<open>B\<close> are both
  enabled and both in the run list when the dispatch of \<open>ready\<close> starts; \<open>A\<close> calls
  \<open>disable('B')\<close> during its turn. The dispatch in progress is affected: the handler of
  \<open>B\<close> is not invoked and the result map has no entry for \<open>B\<close>.
\<close>

theorem inflight_disable_counterexample:
  "isEnabled disablingManager ''A'' \<and> isEnabled disablingManager ''B''
   \<and> map name (the (getPluginsForEvent 3 disablingManager Ready)) = [''A'', ''B'']
   \<and> \<not> isl (fst (runEvent 3 disablingManager Ready (Snapshot ''doc'')))
   \<and> projr (fst (runEvent 3 disablingManager Ready (Snapshot ''doc''))) ''B'' = None
   \<and> invoked (trace (snd (runEvent 3 disablingManager Ready (Snapshot ''doc'')))) = [''A'']"
proof -
  let ?A = "readyPlugin ''A'' (disablingHandler ''B'') None None"
  let ?B = "readyPlugin ''B'' idleHandler None None"
  let ?cx = "Snapshot ''doc''"
  have en: "isEnabled disablingManager ''A''" "isEnabled disablingManager ''B''"
    by (simp_all add: isEnabled_def disablingManager_eq)
  have off: "\<not> isEnabled (afterTurn Ready ?cx ?A disablingManager) ''B''"
    by (simp add: afterTurn_def turnContext_def readyPlugin_def disablingHandler_def disable_def
        isEnabled_def disablingManager_eq Let_def)
  have tr: "invoked (trace (afterTurn Ready ?cx ?A disablingManager)) = [''A'']"
    by (simp add: afterTurn_def turnContext_def readyPlugin_def disablingHandler_def disable_def
        disablingManager_eq Let_def emit_trace)
  have names: "name ?A = ''A''" "name ?B = ''B''" by (simp_all add: readyPlugin_def)
  have "runEvent 3 disablingManager Ready ?cx
          = (Inr (Map.empty(''A'' \<mapsto> turnResult Ready ?cx ?A disablingManager)),
             afterTurn Ready ?cx ?A disablingManager)"
    using en off by (simp add: runEvent_def disablingManager_run dispatch_step names)
  with en tr show ?thesis by (simp add: disablingManager_run names)
qed

text \<open>
  Claim C8, amended. The run list is computed once, at the start of the dispatch, and
  no call made during the dispatch changes it: the handlers invoked are a subsequence
  of it, in its order. Whether a listed plugin is invoked, and with which
  configuration, is read from the registry when its turn comes: it is invoked, and
  its result recorded, exactly if it is in the enabled set at that moment. So
  \<open>enable\<close>, \<open>disable\<close>, \<open>unregister\<close> and \<open>setConfig\<close> made during a dispatch do
  affect the event in progress, while \<open>register\<close> does not: if the calls made during
  the dispatch are calls of \<open>register\<close> only, every listed plugin finds at its turn
  the enabled flag and the context it had at the start.
\<close>

theorem runEvent_run_list_fixed:
  assumes wf: "wellFormed s" and run: "getPluginsForEvent frames s ev = Some ps"
  shows "\<exists>results s' new.
       runEvent frames s ev cx = (Inr results, s') \<and> trace s' = trace s @ new
     \<and> subseq (invoked new) (map name ps)
     \<and> (\<forall>xs q ys. ps = xs @ q # ys \<longrightarrow>
          (name q \<in> set (invoked new) \<longleftrightarrow> isEnabled (stateAfter ev cx xs s) (name q))
          \<and> results (name q) =
              (if isEnabled (stateAfter ev cx xs s) (name q)
               then Some (turnResult ev cx q (stateAfter ev cx xs s)) else None))
     \<and> ((\<forall>q\<in>set ps. \<forall>c. \<forall>a\<in>set (snd (handler q c)). \<exists>r. a = Register r) \<longrightarrow>
          (\<forall>xs q ys. ps = xs @ q # ys \<longrightarrow>
             isEnabled (stateAfter ev cx xs s) (name q) = isEnabled s (name q)
           \<and> turnContext ev cx q (stateAfter ev cx xs s) = turnContext ev cx q s))"
proof -
  have dist: "distinct (map name ps)"
    by (rule getPluginsForEvent_distinct[OF wf run])
  have reg: "\<forall>q\<in>set ps. getPlugin s (name q) = Some q"
    by (rule getPluginsForEvent_registered[OF wf run])
  obtain r' where r': "dispatch ev cx ps Map.empty s = (Inr r', stateAfter ev cx ps s)"
    using dispatch_returns by blast
  have runEv: "runEvent frames s ev cx = (Inr r', stateAfter ev cx ps s)"
    using run r' by (simp add: runEvent_def)
  from stateAfter_trace[OF dist, of ev cx s] obtain new where
    new: "trace (stateAfter ev cx ps s) = trace s @ new"
    and sub: "subseq (invoked new) (map name ps)"
    and inv: "\<forall>xs q ys. ps = xs @ q # ys \<longrightarrow>
             (name q \<in> set (invoked new) \<longleftrightarrow> isEnabled (stateAfter ev cx xs s) (name q))"
    by blast
  have res: "r' (name q) = (if isEnabled (stateAfter ev cx xs s) (name q)
               then Some (turnResult ev cx q (stateAfter ev cx xs s)) else None)"
    if "ps = xs @ q # ys" for xs q ys
    using dispatch_result_at[of xs q ys ev cx s r' "stateAfter ev cx ps s"] dist r' that by simp
  have only: "isEnabled (stateAfter ev cx xs s) (name q) = isEnabled s (name q)
           \<and> turnContext ev cx q (stateAfter ev cx xs s) = turnContext ev cx q s"
    if o: "\<forall>q\<in>set ps. \<forall>c. \<forall>a\<in>set (snd (handler q c)). \<exists>r. a = Register r"
      and split: "ps = xs @ q # ys" for xs q ys
  proof -
    have ox: "\<forall>q\<in>set xs. \<forall>c. \<forall>a\<in>set (snd (handler q c)). \<exists>r. a = Register r"
    proof (intro ballI allI)
      fix q' c a
      assume q': "q' \<in> set xs" and a: "a \<in> set (snd (handler q' c))"
      from q' split have "q' \<in> set ps" by simp
      with o a show "\<exists>r. a = Register r" by blast
    qed
    from reg split have "getPlugin s (name q) \<noteq> None" by simp
    from stateAfter_registers_keep[OF ox this, of ev cx] show ?thesis
      by (simp add: turnContext_def)
  qed
  have both: "\<forall>xs q ys. ps = xs @ q # ys \<longrightarrow>
          (name q \<in> set (invoked new) \<longleftrightarrow> isEnabled (stateAfter ev cx xs s) (name q))
          \<and> r' (name q) =
              (if isEnabled (stateAfter ev cx xs s) (name q)
               then Some (turnResult ev cx q (stateAfter ev cx xs s)) else None)"
    using inv res by blast
  have keep: "(\<forall>q\<in>set ps. \<forall>c. \<forall>a\<in>set (snd (handler q c)). \<exists>r. a = Register r) \<longrightarrow>
          (\<forall>xs q ys. ps = xs @ q # ys \<longrightarrow>
             isEnabled (stateAfter ev cx xs s) (name q) = isEnabled s (name q)
           \<and> turnContext ev cx q (stateAfter ev cx xs s) = turnContext ev cx q s)"
    using only by blast
  show ?thesis
  proof (intro exI conjI)
    show "runEvent frames s ev cx = (Inr r', stateAfter ev cx ps s)" by (rule runEv)
    show "trace (stateAfter ev cx ps s) = trace s @ new" by (rule new)
    show "subseq (invoked new) (map name ps)" by (rule sub)
    show "\<forall>xs q ys. ps = xs @ q # ys \<longrightarrow>
          (name q \<in> set (invoked new) \<longleftrightarrow> isEnabled (stateAfter ev cx xs s) (name q))
          \<and> r' (name q) =
              (if isEnabled (stateAfter ev cx xs s) (name q)
               then Some (turnResult ev cx q (stateAfter ev cx xs s)) else None)" by (rule both)
    show "(\<forall>q\<in>set ps. \<forall>c. \<forall>a\<in>set (snd (handler q c)). \<exists>r. a = Register r) \<longrightarrow>
          (\<forall>xs q ys. ps = xs @ q # ys \<longrightarrow>
             isEnabled (stateAfter ev cx xs s) (name q) = isEnabled s (name q)
           \<and> turnContext ev cx q (stateAfter ev cx xs s) = turnContext ev cx q s)" by (rule keep)
  qed
qed

lemma registeringManager_eq:
  "registeringManager =
     \<lparr>plugins = [(''A'', readyPlugin ''A'' (registeringHandler (readyPlugin ''C'' idleHandler None None)) None None),
                 (''B'', readyPlugin ''B'' idleHandler None None)],
      enabledPlugins = [''A'', ''B''], pluginConfigs = Map.empty, listeners = (\<lambda>_. []),
      trace = [Emitted PluginRegistered (NameData ''A''), Emitted PluginRegistered (NameData ''B'')]\<rparr>"
  by (simp add: registeringManager_def registerAll_def register_def getPlugin_def
      readyPlugin_def newManager_def emit_closed record_effect_def Let_def setAdd_def
      listenerEffects_def)

lemma registeringManager_run:
  "getPluginsForEvent 3 registeringManager Ready
     = Some [readyPlugin ''A'' (registeringHandler (readyPlugin ''C'' idleHandler None None)) None None,
             readyPlugin ''B'' idleHandler None None]"
  by (simp add: getPluginsForEvent_def registeringManager_eq numeral_3_eq_3 getPlugin_def
        readyPlugin_def dependencyList_def setAdd_def)

theorem runEvent_run_list_fixed_witness:
  "wellFormed registeringManager
   \<and> map name (the (getPluginsForEvent 3 registeringManager Ready)) = [''A'', ''B'']
   \<and> (\<exists>results s' new.
         runEvent 3 registeringManager Ready (Snapshot ''doc'') = (Inr results, s')
       \<and> trace s' = trace registeringManager @ new
       \<and> subseq (invoked new) [''A'', ''B'']
       \<and> ''A'' \<in> set (invoked new) \<and> ''B'' \<in> set (invoked new)
       \<and> results ''B'' = Some \<lparr>success = True, data = None, error = None\<rparr>)"
proof -
  let ?A = "readyPlugin ''A'' (registeringHandler (readyPlugin ''C'' idleHandler None None)) None None"
  let ?B = "readyPlugin ''B'' idleHandler None None"
  let ?cx = "Snapshot ''doc''"
  let ?s = registeringManager
  have wf: "wellFormed ?s"
    by (simp add: wellFormed_def registeringManager_eq readyPlugin_def)
  have names: "name ?A = ''A''" "name ?B = ''B''" by (simp_all add: readyPlugin_def)
  have only: "\<forall>q\<in>set [?A, ?B]. \<forall>c. \<forall>a\<in>set (snd (handler q c)). \<exists>r. a = Register r"
    by (simp add: readyPlugin_def registeringHandler_def idleHandler_def)
  have en: "isEnabled ?s ''A''" "isEnabled ?s ''B''"
    by (simp_all add: isEnabled_def registeringManager_eq)
  from runEvent_run_list_fixed[OF wf registeringManager_run, of ?cx]
  obtain results s' new where
    r: "runEvent 3 ?s Ready ?cx = (Inr results, s')" "trace s' = trace ?s @ new"
       "subseq (invoked new) (map name [?A, ?B])"
    and at: "\<forall>xs q ys. [?A, ?B] = xs @ q # ys \<longrightarrow>
          (name q \<in> set (invoked new) \<longleftrightarrow> isEnabled (stateAfter Ready ?cx xs ?s) (name q))
          \<and> results (name q) =
              (if isEnabled (stateAfter Ready ?cx xs ?s) (name q)
               then Some (turnResult Ready ?cx q (stateAfter Ready ?cx xs ?s)) else None)"
    and keep: "(\<forall>q\<in>set [?A, ?B]. \<forall>c. \<forall>a\<in>set (snd (handler q c)). \<exists>r. a = Register r) \<longrightarrow>
          (\<forall>xs q ys. [?A, ?B] = xs @ q # ys \<longrightarrow>
             isEnabled (stateAfter Ready ?cx xs ?s) (name q) = isEnabled ?s (name q)
           \<and> turnContext Ready ?cx q (stateAfter Ready ?cx xs ?s) = turnContext Ready ?cx q ?s)"
    by blast
  have sA: "[?A, ?B] = [] @ ?A # [?B]" and sB: "[?A, ?B] = [?A] @ ?B # []" by simp_all
  from keep only have k: "\<forall>xs q ys. [?A, ?B] = xs @ q # ys \<longrightarrow>
             isEnabled (stateAfter Ready ?cx xs ?s) (name q) = isEnabled ?s (name q)
           \<and> turnContext Ready ?cx q (stateAfter Ready ?cx xs ?s) = turnContext Ready ?cx q ?s"
    by (rule mp)
  from k sA en(1) names have eA: "isEnabled (stateAfter Ready ?cx [] ?s) (name ?A)" by metis
  from k sB en(2) names have eB: "isEnabled (stateAfter Ready ?cx [?A] ?s) (name ?B)" by metis
  from k sB have cB: "turnContext Ready ?cx ?B (stateAfter Ready ?cx [?A] ?s) = turnContext Ready ?cx ?B ?s"
    by blast
  from at sA eA have iA: "name ?A \<in> set (invoked new)" by blast
  from at sB eB have iB: "name ?B \<in> set (invoked new)"
    and rB: "results (name ?B) = Some (turnResult Ready ?cx ?B (stateAfter Ready ?cx [?A] ?s))"
    by (blast, metis)
  have "turnResult Ready ?cx ?B (stateAfter Ready ?cx [?A] ?s) = \<lparr>success = True, data = None, error = None\<rparr>"
    by (simp add: turnResult_def readyPlugin_def idleHandler_def)
  with rB have rB': "results ''B'' = Some \<lparr>success = True, data = None, error = None\<rparr>"
    by (simp add: names)
  from r iA iB rB' wf show ?thesis
    by (simp add: names registeringManager_run) 
qed

end
